theory Spec2Isabelle
  imports Main "HOL-Library.Word" "HOL-Library.Sublist"
begin

unbundle bit_operations_syntax

section \<open>Data model\<close>

text \<open>
  The watcher of \<^verbatim>\<open>main.go\<close>. A \<^verbatim>\<open>time.Time\<close> is kept abstract: Go compares two of
  them with \<^verbatim>\<open>!=\<close> field by field, so all the code needs of a time is its identity;
  \<open>zeroTime\<close> is the zero value a fresh struct holds (no time \<^verbatim>\<open>Lstat\<close> reports is equal to
  it; the model does not rely on that). An \<^verbatim>\<open>*exec.Cmd\<close> is the identity
  of the allocated object (\<open>ident\<close>), its command line and the \<^verbatim>\<open>Process\<close> field,
  which is set once the command was started. The mutex \<^verbatim>\<open>processMu\<close> has no field: the
  sections it guards are the atomic steps of the model.
\<close>

type_synonym gotime = nat

definition zeroTime :: gotime where
  "zeroTime = 0"

datatype error = PathError string | StartError string | ExitError int

record Cmd =
  ident :: nat
  Args :: string
  Process :: "nat option"

record Watcher =
  dir :: string
  interval :: nat
  buildCmd :: string
  runCmd :: string
  includes' :: "string list"
  excludes :: "string list"
  depFile :: string
  depCmd :: string
  prevHash :: "64 word"
  prevDepMTime :: gotime
  process :: "Cmd option"

definition NewWatcher ::
  "string \<Rightarrow> nat \<Rightarrow> string \<Rightarrow> string \<Rightarrow> string \<Rightarrow> string \<Rightarrow> string list \<Rightarrow> string list \<Rightarrow> Watcher" where
  "NewWatcher d iv bc rc df dc incs excs =
     \<lparr>dir = d, interval = iv, buildCmd = bc, runCmd = rc, includes' = incs, excludes = excs,
      depFile = df, depCmd = dc, prevHash = 0, prevDepMTime = zeroTime, process = None\<rparr>"

section \<open>Path rules\<close>

text \<open>\<^verbatim>\<open>strings.HasPrefix\<close> and \<^verbatim>\<open>strings.HasSuffix\<close>, as the Go library writes them.\<close>

definition HasPrefix :: "string \<Rightarrow> string \<Rightarrow> bool" where
  "HasPrefix s p = (length p \<le> length s \<and> take (length p) s = p)"

definition HasSuffix :: "string \<Rightarrow> string \<Rightarrow> bool" where
  "HasSuffix s p = (length p \<le> length s \<and> drop (length s - length p) s = p)"

text \<open>
  Both loops of \<^verbatim>\<open>shouldProcess\<close> have the same shape: run through the rules and
  return at the first one that is a prefix or a suffix of the path. \<open>ruleLoop\<close> says
  whether the loop reaches its \<^verbatim>\<open>return\<close>.
\<close>

fun ruleLoop :: "string \<Rightarrow> string list \<Rightarrow> bool" where
  "ruleLoop relPath [] = False"
| "ruleLoop relPath (r # rs) =
     (if HasPrefix relPath r \<or> HasSuffix relPath r then True else ruleLoop relPath rs)"

definition shouldProcess :: "Watcher \<Rightarrow> string \<Rightarrow> bool" where
  "shouldProcess w relPath =
     (if ruleLoop relPath (excludes w) then False
      else if length (includes' w) = 0 then True
      else if ruleLoop relPath (includes' w) then True
      else False)"

section \<open>The file tree as the walk finds it\<close>

text \<open>
  \<^verbatim>\<open>os.FileInfo\<close> with the four methods the code calls. A node of the tree is what
  \<^verbatim>\<open>filepath.Walk\<close> meets at one name: \<^verbatim>\<open>os.Lstat\<close> fails there (\<open>NoStat\<close>), or it
  gives the info of the entry; for a directory the node also holds what \<^verbatim>\<open>readDirNames\<close>
  gives, an error or the entries in the sorted order of their names (for a file both are
  unused).
\<close>

record FileInfo =
  Name :: string
  Size :: int
  ModTime :: gotime
  IsDir :: bool

datatype fsnode =
    NoStat string error
  | Entry FileInfo "error option" "fsnode list"

section \<open>Effects and the environment\<close>

text \<open>
  What the program does to the outside world is recorded as a list of events, in the order
  of the calls. A path handed to the walk callback is the list of the names below the
  root (the root itself is \<open>[]\<close>).
\<close>

type_synonym path = "string list"

datatype logmsg =
    ErrorAccessing path error
  | NoInfoFor path
  | DepChangedRunning string string
  | RunningBuild
  | StoppingPrevious
  | StartingApp
  | AppExited
  | ErrorHashingDir error
  | ChangeDetected
  | BuildFailed error
  | AppStartFailed error

datatype event =
    Log logmsg
  | Spawn string
  | Waited int
  | Kill nat
  | Sleep nat

text \<open>
  The operating system's answer to \<^verbatim>\<open>cmd.Run()\<close> of \<^verbatim>\<open>/bin/sh -c command\<close>: the shell could
  not be started, or it ran and exited with a code (not 0 as well when a signal ended it).
  \<^verbatim>\<open>Run\<close> returns nil exactly when the command ran and exited with code 0.
\<close>

datatype outcome = NotStarted error | Exited int

fun cmd_Run :: "outcome \<Rightarrow> string \<Rightarrow> error option \<times> event list" where
  "cmd_Run (NotStarted e) line = (Some e, [])"
| "cmd_Run (Exited c) line = (if c = 0 then None else Some (ExitError c), [Spawn line, Waited c])"

section \<open>filepath.Walk\<close>

text \<open>
  What a walk callback returns: nil, \<^verbatim>\<open>filepath.SkipDir\<close> or another error. A panic of the
  callback unwinds the walk at the call; it is carried upwards as \<open>Panic\<close>, the way the
  walk hands a returned error upwards.
\<close>

datatype walkret = RetNil | SkipDir | RetErr error | Panic

text \<open>
  \<^verbatim>\<open>walk\<close> and the loop over the names of a directory, as the Go library writes them; the
  callback carries the state \<open>'s\<close> its closure writes to.
\<close>

fun walk :: "('s \<Rightarrow> path \<Rightarrow> FileInfo option \<Rightarrow> error option \<Rightarrow> walkret \<times> 's) \<Rightarrow>
    path \<Rightarrow> FileInfo \<Rightarrow> error option \<Rightarrow> fsnode list \<Rightarrow> 's \<Rightarrow> walkret \<times> 's"
  and walkNames :: "('s \<Rightarrow> path \<Rightarrow> FileInfo option \<Rightarrow> error option \<Rightarrow> walkret \<times> 's) \<Rightarrow>
    path \<Rightarrow> fsnode list \<Rightarrow> 's \<Rightarrow> walkret \<times> 's"
where
  "walk fn p info rd kids s =
     (if \<not> IsDir info then fn s p (Some info) None
      else
        (case fn s p (Some info) rd of
           (err1, s1) \<Rightarrow>
             if rd \<noteq> None \<or> err1 \<noteq> RetNil then (err1, s1)
             else walkNames fn p kids s1))"
| "walkNames fn p [] s = (RetNil, s)"
| "walkNames fn p (NoStat name e # rest) s =
     (case fn s (p @ [name]) None (Some e) of
        (r, s1) \<Rightarrow>
          if r \<noteq> RetNil \<and> r \<noteq> SkipDir then (r, s1)
          else walkNames fn p rest s1)"
| "walkNames fn p (Entry info rd kids # rest) s =
     (case walk fn (p @ [Name info]) info rd kids s of
        (r, s1) \<Rightarrow>
          if r \<noteq> RetNil \<and> (\<not> IsDir info \<or> r \<noteq> SkipDir) then (r, s1)
          else walkNames fn p rest s1)"

definition Walk :: "('s \<Rightarrow> path \<Rightarrow> FileInfo option \<Rightarrow> error option \<Rightarrow> walkret \<times> 's) \<Rightarrow>
    fsnode \<Rightarrow> 's \<Rightarrow> walkret \<times> 's" where
  "Walk fn root s =
     (case (case root of
              NoStat name e \<Rightarrow> fn s [] None (Some e)
            | Entry info rd kids \<Rightarrow> walk fn [] info rd kids s) of
        (r, s1) \<Rightarrow> (if r = SkipDir then RetNil else r, s1))"

section \<open>TreeFingerprinter\<close>

text \<open>The 64-bit FNV-1a hash of \<^verbatim>\<open>hash/fnv\<close>: \<^verbatim>\<open>New64a\<close>, \<^verbatim>\<open>Write\<close>; \<^verbatim>\<open>Sum64\<close> is the state.\<close>

definition offset64 :: "64 word" where
  "offset64 = 14695981039346656037"

definition prime64 :: "64 word" where
  "prime64 = 1099511628211"

fun fnvWrite :: "64 word \<Rightarrow> string \<Rightarrow> 64 word" where
  "fnvWrite hsh [] = hsh"
| "fnvWrite hsh (c # cs) = fnvWrite ((hsh XOR of_nat (of_char c)) * prime64) cs"

text \<open>\<^verbatim>\<open>fmt.Sprintf("%d", n)\<close>: the decimal digits, after a minus sign for a negative number.\<close>

fun digits :: "nat \<Rightarrow> string" where
  "digits n = (if n < 10 then [char_of (48 + n)] else digits (n div 10) @ [char_of (48 + n mod 10)])"

definition Sprintf_d :: "int \<Rightarrow> string" where
  "Sprintf_d i = (if i < 0 then CHR ''-'' # digits (nat (- i)) else digits (nat i))"

text \<open>
  \<^verbatim>\<open>filepath.Base\<close> on a system whose separator is the slash. \<^verbatim>\<open>filepath.Rel(w.dir, path)\<close>
  of a path the walk of \<^verbatim>\<open>w.dir\<close> hands out: a dot for the root, else the names below the
  root joined by slashes. The base name of such a path is the name \<^verbatim>\<open>Lstat\<close> reports for
  the entry.
\<close>

definition Base :: "string \<Rightarrow> string" where
  "Base p =
     (if p = [] then ''.''
      else
        (let q = rev (dropWhile (\<lambda>c. c = CHR ''/'') (rev p));
             b = rev (takeWhile (\<lambda>c. c \<noteq> CHR ''/'') (rev q))
         in if b = [] then ''/'' else b))"

fun joinNames :: "string list \<Rightarrow> string" where
  "joinNames [] = []"
| "joinNames [n] = n"
| "joinNames (n # m # ns) = n @ CHR ''/'' # joinNames (m # ns)"

definition Rel :: "path \<Rightarrow> string" where
  "Rel p = (if p = [] then ''.'' else joinNames p)"

text \<open>
  The variables the callback of \<^verbatim>\<open>hashDir\<close> closes over: the hash \<^verbatim>\<open>h\<close>, \<^verbatim>\<open>depChanged\<close>, the
  receiver \<^verbatim>\<open>w\<close>, and the lines it has logged.
\<close>

record scan =
  sc_h :: "64 word"
  sc_depChanged :: bool
  sc_w :: Watcher
  sc_log :: "event list"

text \<open>
  The callback on a file the walk hands over with no error: the filter, the three writes
  to the hash, the check of the dependency file. The first argument stands for
  \<^verbatim>\<open>time.Time.String\<close>.
\<close>

definition hashFile :: "(gotime \<Rightarrow> string) \<Rightarrow> scan \<Rightarrow> path \<Rightarrow> FileInfo \<Rightarrow> scan" where
  "hashFile tstr s p info =
     (if \<not> shouldProcess (sc_w s) (Rel p) then s
      else
        (let s1 = s\<lparr>sc_h := fnvWrite (fnvWrite (fnvWrite (sc_h s) (Rel p)) (Sprintf_d (Size info)))
                                (tstr (ModTime info))\<rparr>
         in if depFile (sc_w s1) \<noteq> [] \<and> Name info = Base (depFile (sc_w s1)) then
              (if ModTime info \<noteq> prevDepMTime (sc_w s1) then
                 s1\<lparr>sc_depChanged := True, sc_w := (sc_w s1)\<lparr>prevDepMTime := ModTime info\<rparr>\<rparr>
               else s1)
            else s1))"

text \<open>
  The callback. A directory whose name is empty makes \<^verbatim>\<open>info.Name()[0]\<close> panic (no name
  \<^verbatim>\<open>Lstat\<close> reports is empty).
\<close>

definition hashDir_fn ::
  "(gotime \<Rightarrow> string) \<Rightarrow> scan \<Rightarrow> path \<Rightarrow> FileInfo option \<Rightarrow> error option \<Rightarrow> walkret \<times> scan" where
  "hashDir_fn tstr s p info err =
     (case err of
        Some e \<Rightarrow> (RetNil, s\<lparr>sc_log := sc_log s @ [Log (ErrorAccessing p e)]\<rparr>)
      | None \<Rightarrow>
          (case info of
             None \<Rightarrow> (RetNil, s\<lparr>sc_log := sc_log s @ [Log (NoInfoFor p)]\<rparr>)
           | Some i \<Rightarrow>
               if IsDir i then
                 (if Name i \<noteq> ''.'' then
                    (case Name i of
                       [] \<Rightarrow> (Panic, s)
                     | c # cs \<Rightarrow> if c = CHR ''.'' then (SkipDir, s) else (RetNil, s))
                  else (RetNil, s))
               else (RetNil, hashFile tstr s p i)))"

text \<open>
  \<^verbatim>\<open>hashDir\<close> on the tree the walk finds: \<open>None\<close> when the callback panics, else the three
  results, the watcher (the callback writes \<^verbatim>\<open>prevDepMTime\<close>) and the logged lines.
\<close>

definition hashDir ::
  "(gotime \<Rightarrow> string) \<Rightarrow> fsnode \<Rightarrow> Watcher \<Rightarrow>
     ((64 word \<times> bool \<times> error option) \<times> Watcher \<times> event list) option" where
  "hashDir tstr root w0 =
     (case Walk (hashDir_fn tstr) root \<lparr>sc_h = offset64, sc_depChanged = False, sc_w = w0, sc_log = []\<rparr> of
        (Panic, s) \<Rightarrow> None
      | (RetErr e, s) \<Rightarrow> Some ((0, False, Some e), sc_w s, sc_log s)
      | (RetNil, s) \<Rightarrow> Some ((sc_h s, sc_depChanged s, None), sc_w s, sc_log s)
      | (SkipDir, s) \<Rightarrow> Some ((0, False, Some (PathError ''skip this directory'')), sc_w s, sc_log s))"

section \<open>CommandRunner\<close>

definition runShell :: "outcome \<Rightarrow> string \<Rightarrow> error option \<times> event list" where
  "runShell out command = (if command = [] then (None, []) else cmd_Run out command)"

text \<open>
  \<^verbatim>\<open>runBuild\<close>: each of its two calls of \<^verbatim>\<open>runShell\<close> gets the system's answer for that call.
\<close>

definition runBuild :: "outcome \<Rightarrow> outcome \<Rightarrow> Watcher \<Rightarrow> bool \<Rightarrow> error option \<times> event list" where
  "runBuild depOut buildOut w depChanged =
     (if depChanged \<and> depCmd w \<noteq> [] then
        (case runShell depOut (depCmd w) of
           (Some err, evs) \<Rightarrow> (Some err, Log (DepChangedRunning (depFile w) (depCmd w)) # evs)
         | (None, evs) \<Rightarrow>
             (case runShell buildOut (buildCmd w) of
                (r, evs') \<Rightarrow>
                  (r, Log (DepChangedRunning (depFile w) (depCmd w)) # evs @ Log RunningBuild # evs')))
      else
        (case runShell buildOut (buildCmd w) of
           (r, evs') \<Rightarrow> (r, Log RunningBuild # evs')))"

section \<open>ProcessSupervisor\<close>

text \<open>
  The running system: the watcher struct, the number of \<^verbatim>\<open>exec.Cmd\<close> objects allocated so
  far (the next one gets this number as its identity), and the goroutines that
  \<^verbatim>\<open>startApp\<close> has started and that are blocked in \<^verbatim>\<open>cmd.Wait()\<close>, each with the command it
  waits for.
\<close>

record Sys =
  watcher :: Watcher
  allocated :: nat
  waiting :: "Cmd list"

definition boot :: "Watcher \<Rightarrow> Sys" where
  "boot w = \<lparr>watcher = w, allocated = 0, waiting = []\<rparr>"

text \<open>
  \<^verbatim>\<open>startApp\<close> runs under the mutex from its first line to its return, so it is one atomic
  step. Its first argument is the system's answer to \<^verbatim>\<open>cmd.Start()\<close>: an error, or the
  process id of the started shell.
\<close>

text \<open>The first block of \<^verbatim>\<open>startApp\<close>: a handle with a started process is killed and cleared.\<close>

definition stopPrevious :: "Watcher \<Rightarrow> Watcher \<times> event list" where
  "stopPrevious w =
     (case process w of
        None \<Rightarrow> (w, [])
      | Some c \<Rightarrow>
          (case Process c of
             None \<Rightarrow> (w, [])
           | Some pid \<Rightarrow> (w\<lparr>process := None\<rparr>, [Log StoppingPrevious, Kill pid])))"

definition startApp :: "error + nat \<Rightarrow> Sys \<Rightarrow> error option \<times> Sys \<times> event list" where
  "startApp started s =
     (case stopPrevious (watcher s) of
        (w1, evs) \<Rightarrow>
          (case started of
             Inl err \<Rightarrow>
               (Some err, s\<lparr>watcher := w1, allocated := Suc (allocated s)\<rparr>, evs @ [Log StartingApp])
           | Inr pid \<Rightarrow>
               (let cmd = \<lparr>ident = allocated s, Args = runCmd w1, Process = Some pid\<rparr>
                in (None,
                    s\<lparr>watcher := w1\<lparr>process := Some cmd\<rparr>, allocated := Suc (allocated s),
                      waiting := waiting s @ [cmd]\<rparr>,
                    evs @ [Log StartingApp, Spawn (runCmd w1)]))))"

text \<open>
  The goroutine of \<^verbatim>\<open>startApp\<close>, from the return of \<^verbatim>\<open>cmd.Wait()\<close> on: it logs, takes the
  mutex, writes the field and ends.
\<close>

definition exitWatcher :: "Cmd \<Rightarrow> Sys \<Rightarrow> Sys \<times> event list" where
  "exitWatcher cmd s =
     (s\<lparr>watcher := (watcher s)\<lparr>process := None\<rparr>, waiting := remove1 cmd (waiting s)\<rparr>,
      [Log AppExited])"

text \<open>
  The interleavings of the supervisor: a call of \<^verbatim>\<open>startApp\<close>, or the exit of the process
  of a command some goroutine waits for (named by the command's identity), which lets
  that goroutine run. The exit of a process nobody waits for changes nothing.
\<close>

datatype action = Restart "error + nat" | ProcExit nat

fun step :: "Sys \<Rightarrow> action \<Rightarrow> Sys" where
  "step s (Restart r) = fst (snd (startApp r s))"
| "step s (ProcExit i) =
     (case find (\<lambda>c. ident c = i) (waiting s) of
        None \<Rightarrow> s
      | Some c \<Rightarrow> fst (exitWatcher c s))"

definition run :: "action list \<Rightarrow> Sys \<Rightarrow> Sys" where
  "run acts s = foldl step s acts"

definition tracked :: "Sys \<Rightarrow> Cmd set" where
  "tracked s = set_option (process (watcher s))"

section \<open>WatchLoop\<close>

text \<open>
  What one tick of the loop meets outside the program: the tree the walk finds, the
  system's answers to the dependency command and to the build command (used when the
  command is run), and its answer to the start of the run command.
\<close>

record env =
  tree :: fsnode
  depRun :: outcome
  buildRun :: outcome
  appStart :: "error + nat"

text \<open>
  The body of the loop of \<^verbatim>\<open>Run\<close> after its call of \<^verbatim>\<open>hashDir\<close>, on the three values
  the call returned.
\<close>

definition react :: "env \<Rightarrow> 64 word \<times> bool \<times> error option \<Rightarrow> Sys \<Rightarrow> Sys \<times> event list" where
  "react e res s =
     (case res of
        (hash, depChanged, err) \<Rightarrow>
          (case err of
             Some er \<Rightarrow> (s, [Log (ErrorHashingDir er), Sleep (interval (watcher s))])
           | None \<Rightarrow>
               if hash \<noteq> prevHash (watcher s) then
                 (let s1 = s\<lparr>watcher := (watcher s)\<lparr>prevHash := hash\<rparr>\<rparr>
                  in case runBuild (depRun e) (buildRun e) (watcher s1) depChanged of
                       (Some er, evs) \<Rightarrow>
                         (s1, Log ChangeDetected # evs @ [Log (BuildFailed er), Sleep (interval (watcher s1))])
                     | (None, evs) \<Rightarrow>
                         (case startApp (appStart e) s1 of
                            (r, s2, evs2) \<Rightarrow>
                              (s2, Log ChangeDetected # evs @ evs2 @
                                   (case r of Some er \<Rightarrow> [Log (AppStartFailed er)] | None \<Rightarrow> []) @
                                   [Sleep (interval (watcher s2))])))
               else (s, [Sleep (interval (watcher s))])))"

text \<open>One pass through the loop of \<^verbatim>\<open>Run\<close>; \<open>None\<close> when \<^verbatim>\<open>hashDir\<close> panics.\<close>

definition cycle :: "(gotime \<Rightarrow> string) \<Rightarrow> env \<Rightarrow> Sys \<Rightarrow> (Sys \<times> event list) option" where
  "cycle tstr e s =
     (case hashDir tstr (tree e) (watcher s) of
        None \<Rightarrow> None
      | Some (res, w1, lg) \<Rightarrow>
          (case react e res (s\<lparr>watcher := w1\<rparr>) of
             (s', evs) \<Rightarrow> Some (s', lg @ evs)))"

text \<open>
  The loop of \<^verbatim>\<open>Run\<close> has no exit. \<open>Run\<close> runs it through a given list of occurrences: a
  tick of the loop in its environment, or the exit of a started process, which wakes the
  goroutine waiting for it. The goroutine touches the \<^verbatim>\<open>process\<close> field only, under the
  mutex, so waking it between two ticks covers the runs where it wakes within one.
\<close>

datatype occurrence = Tick env | AppExit nat

fun Run :: "(gotime \<Rightarrow> string) \<Rightarrow> occurrence list \<Rightarrow> Sys \<Rightarrow> (Sys \<times> event list) option" where
  "Run tstr [] s = Some (s, [])"
| "Run tstr (Tick e # os) s =
     (case cycle tstr e s of
        None \<Rightarrow> None
      | Some (s1, evs) \<Rightarrow>
          (case Run tstr os s1 of
             None \<Rightarrow> None
           | Some (s2, evs2) \<Rightarrow> Some (s2, evs @ evs2)))"
| "Run tstr (AppExit i # os) s =
     (case find (\<lambda>c. ident c = i) (waiting s) of
        None \<Rightarrow> Run tstr os s
      | Some c \<Rightarrow>
          (case Run tstr os (fst (exitWatcher c s)) of
             None \<Rightarrow> None
           | Some (s2, evs2) \<Rightarrow> Some (s2, snd (exitWatcher c s) @ evs2)))"

section \<open>What a walk meets\<close>

text \<open>
  The traversal stated on its own, to compare the walk with: the files it hands to the
  callback and the errors it reports, in order. A directory is hidden when its name
  starts with a dot and is not the dot alone.
\<close>

datatype item = FileItem path FileInfo | ErrItem path error

definition hidden :: "FileInfo \<Rightarrow> bool" where
  "hidden i = (Name i \<noteq> ''.'' \<and> take 1 (Name i) = ''.'')"

fun trav :: "path \<Rightarrow> FileInfo \<Rightarrow> error option \<Rightarrow> fsnode list \<Rightarrow> item list"
  and travNames :: "path \<Rightarrow> fsnode list \<Rightarrow> item list"
where
  "trav p info rd kids =
     (if \<not> IsDir info then [FileItem p info]
      else
        (case rd of
           Some e \<Rightarrow> [ErrItem p e]
         | None \<Rightarrow> if hidden info then [] else travNames p kids))"
| "travNames p [] = []"
| "travNames p (NoStat name e # rest) = ErrItem (p @ [name]) e # travNames p rest"
| "travNames p (Entry info rd kids # rest) = trav (p @ [Name info]) info rd kids @ travNames p rest"

fun travRoot :: "fsnode \<Rightarrow> item list" where
  "travRoot (NoStat name e) = [ErrItem [] e]"
| "travRoot (Entry info rd kids) = trav [] info rd kids"

text \<open>Whether the walk reaches a readable directory with an empty name.\<close>

fun reachesNoName :: "FileInfo \<Rightarrow> error option \<Rightarrow> fsnode list \<Rightarrow> bool"
  and reachesNoNames :: "fsnode list \<Rightarrow> bool"
where
  "reachesNoName info rd kids =
     (IsDir info \<and> rd = None \<and> (Name info = [] \<or> (\<not> hidden info \<and> reachesNoNames kids)))"
| "reachesNoNames [] = False"
| "reachesNoNames (NoStat name e # rest) = reachesNoNames rest"
| "reachesNoNames (Entry info rd kids # rest) = (reachesNoName info rd kids \<or> reachesNoNames rest)"

fun rootNoName :: "fsnode \<Rightarrow> bool" where
  "rootNoName (NoStat name e) = False"
| "rootNoName (Entry info rd kids) = reachesNoName info rd kids"

text \<open>What the callback does with one item.\<close>

fun absorb :: "(gotime \<Rightarrow> string) \<Rightarrow> scan \<Rightarrow> item \<Rightarrow> scan" where
  "absorb tstr s (FileItem p info) = hashFile tstr s p info"
| "absorb tstr s (ErrItem p e) = s\<lparr>sc_log := sc_log s @ [Log (ErrorAccessing p e)]\<rparr>"

text \<open>The lines a walk logs for its items: one for each error.\<close>

fun scanLog :: "item list \<Rightarrow> event list" where
  "scanLog [] = []"
| "scanLog (ErrItem p e # its) = Log (ErrorAccessing p e) # scanLog its"
| "scanLog (FileItem p info # its) = scanLog its"

text \<open>The events of a list before the first occurrence of a given one.\<close>

definition upto :: "event \<Rightarrow> event list \<Rightarrow> event list" where
  "upto ev evs = takeWhile (\<lambda>x. x \<noteq> ev) evs"

text \<open>
  The files among the items that pass the filter of a watcher and carry the base name of
  its dependency file, as their modification times.
\<close>

fun depTimes :: "Watcher \<Rightarrow> item list \<Rightarrow> gotime list" where
  "depTimes w [] = []"
| "depTimes w (ErrItem p e # its) = depTimes w its"
| "depTimes w (FileItem p info # its) =
     (if shouldProcess w (Rel p) \<and> Name info = Base (depFile w) then ModTime info # depTimes w its
      else depTimes w its)"

text \<open>The command lines of the shells a list of events has spawned, in order.\<close>

fun spawns :: "event list \<Rightarrow> string list" where
  "spawns [] = []"
| "spawns (Spawn line # evs) = line # spawns evs"
| "spawns (Log m # evs) = spawns evs"
| "spawns (Waited c # evs) = spawns evs"
| "spawns (Kill pid # evs) = spawns evs"
| "spawns (Sleep d # evs) = spawns evs"


section \<open>A small project\<close>

text \<open>
  A watcher as \<^verbatim>\<open>main\<close> builds it (root \<^verbatim>\<open>.\<close>, one second, \<^verbatim>\<open>go.mod\<close> as the dependency file,
  log files excluded), a tree with a hidden directory, an excluded file, the dependency
  file and a name that vanished before \<^verbatim>\<open>Lstat\<close>, and a rendering of times; the examples
  below run the code on them.
\<close>

definition exTime :: "gotime \<Rightarrow> string" where
  "exTime t = Sprintf_d (int t)"

definition exWatcher :: Watcher where
  "exWatcher = NewWatcher ''.'' 1 ''make'' ''./app'' ''go.mod'' ''go mod tidy'' [] [''.log'']"

definition exTree :: fsnode where
  "exTree =
     Entry \<lparr>Name = ''.'', Size = 4096, ModTime = 3, IsDir = True\<rparr> None
       [Entry \<lparr>Name = ''.git'', Size = 4096, ModTime = 4, IsDir = True\<rparr> None
          [Entry \<lparr>Name = ''HEAD'', Size = 23, ModTime = 4, IsDir = False\<rparr> None []],
        Entry \<lparr>Name = ''a.log'', Size = 1, ModTime = 9, IsDir = False\<rparr> None [],
        Entry \<lparr>Name = ''go.mod'', Size = 20, ModTime = 7, IsDir = False\<rparr> None [],
        NoStat ''gone.go'' (PathError ''no such file or directory'')]"

definition exEnv :: "outcome \<Rightarrow> outcome \<Rightarrow> env" where
  "exEnv d b = \<lparr>tree = exTree, depRun = d, buildRun = b, appStart = Inr 100\<rparr>"

section \<open>Properties of the path rules\<close>

lemma HasPrefix_prefix: "HasPrefix s p = prefix p s"
proof
  assume "HasPrefix s p"
  then have "take (length p) s = p" by (simp add: HasPrefix_def)
  then have "s = p @ drop (length p) s" by (metis append_take_drop_id)
  then show "prefix p s" by (rule prefixI)
next
  assume "prefix p s"
  then obtain t where "s = p @ t" by (auto elim: prefixE)
  then show "HasPrefix s p" by (simp add: HasPrefix_def)
qed

lemma HasSuffix_suffix: "HasSuffix s p = suffix p s"
proof
  assume h: "HasSuffix s p"
  then have "drop (length s - length p) s = p" by (simp add: HasSuffix_def)
  then have "s = take (length s - length p) s @ p" by (metis append_take_drop_id)
  then show "suffix p s" by (rule suffixI)
next
  assume "suffix p s"
  then obtain t where "s = t @ p" by (auto elim: suffixE)
  then show "HasSuffix s p" by (simp add: HasSuffix_def)
qed

lemma ruleLoop_ex: "ruleLoop p rs = (\<exists>r \<in> set rs. prefix r p \<or> suffix r p)"
  by (induction rs) (auto simp: HasPrefix_prefix HasSuffix_suffix)

text \<open>
  C4. For every relative path and every pair of rule lists: when some exclude rule is a
  prefix or a suffix of the path, \<open>shouldProcess\<close> is false whatever the include rules
  are; otherwise it is true when the include list is empty; otherwise it is true exactly
  when some include rule is a prefix or a suffix of the path.
\<close>

theorem shouldProcess_rules:
  "shouldProcess w p =
     (if (\<exists>ex \<in> set (excludes w). prefix ex p \<or> suffix ex p) then False
      else if includes' w = [] then True
      else (\<exists>inc \<in> set (includes' w). prefix inc p \<or> suffix inc p))"
  by (simp add: shouldProcess_def ruleLoop_ex)

theorem shouldProcess_rules_witness:
  "shouldProcess (NewWatcher ''.'' 1 ''make'' ''./app'' [] [] [''.go'', ''services''] [''.git'', ''tmp'']) ''cmd/main.go''
   \<and> \<not> shouldProcess (NewWatcher ''.'' 1 ''make'' ''./app'' [] [] [''.go'', ''services''] [''.git'', ''tmp'']) ''tmp/main.go''
   \<and> \<not> shouldProcess (NewWatcher ''.'' 1 ''make'' ''./app'' [] [] [''.go'', ''services''] [''.git'', ''tmp'']) ''README.md''
   \<and> shouldProcess (NewWatcher ''.'' 1 ''make'' ''./app'' [] [] [] [''.git'', ''tmp'']) ''README.md''"
  using shouldProcess_rules [of "NewWatcher ''.'' 1 ''make'' ''./app'' [] [] [''.go'', ''services''] [''.git'', ''tmp'']" "''cmd/main.go''"]
    shouldProcess_rules [of "NewWatcher ''.'' 1 ''make'' ''./app'' [] [] [''.go'', ''services''] [''.git'', ''tmp'']" "''tmp/main.go''"]
    shouldProcess_rules [of "NewWatcher ''.'' 1 ''make'' ''./app'' [] [] [''.go'', ''services''] [''.git'', ''tmp'']" "''README.md''"]
    shouldProcess_rules [of "NewWatcher ''.'' 1 ''make'' ''./app'' [] [] [] [''.git'', ''tmp'']" "''README.md''"]
  by (simp add: NewWatcher_def prefix_def suffix_def)

section \<open>Properties of the command runner and the supervisor\<close>

lemma runShell_failure: "(fst (runShell out command) \<noteq> None) = (command \<noteq> [] \<and> out \<noteq> Exited 0)"
  by (cases out) (simp_all add: runShell_def)

text \<open>
  C9, as the code has it. \<open>runShell\<close> on the empty string returns success at once and starts
  no process. On a non-empty string it has one shell started with the string as its command
  line: a shell that starts is waited for, and a failure is reported exactly when its exit
  code is not zero; when the system cannot start the shell, no process was spawned and the
  error of the start is returned. So a failure is reported exactly when the string is not
  empty and the shell did not start or did not exit with code 0.
\<close>

theorem runShell_contract:
  "runShell out [] = (None, [])
   \<and> (command \<noteq> [] \<longrightarrow>
        runShell (Exited c) command = (if c = 0 then None else Some (ExitError c), [Spawn command, Waited c])
        \<and> ((fst (runShell (Exited c) command) \<noteq> None) = (c \<noteq> 0))
        \<and> runShell (NotStarted e) command = (Some e, []))
   \<and> ((fst (runShell out command) \<noteq> None) = (command \<noteq> [] \<and> out \<noteq> Exited 0))"
  using runShell_failure [of out command] by (simp add: runShell_def)

text \<open>
  C9 as stated fails where the system cannot start the shell: \<open>runShell\<close> reports a failure,
  and no shell was spawned and no command exited.
\<close>

theorem runShell_start_failure:
  "runShell (NotStarted (StartError ''fork/exec /bin/sh: resource temporarily unavailable'')) ''make'' =
     (Some (StartError ''fork/exec /bin/sh: resource temporarily unavailable''), [])"
  by (simp add: runShell_def)

lemma stopPrevious_runCmd: "stopPrevious w = (w1, evs) \<Longrightarrow> runCmd w1 = runCmd w"
  by (auto simp: stopPrevious_def split: option.splits)

text \<open>
  C10. With an empty run command \<open>startApp\<close> is no no-op: when the system starts the
  shell, \<open>startApp\<close> succeeds, has spawned a shell for the empty command line, stores its
  handle as the current process and leaves a goroutine waiting for it, whereas
  \<open>runShell\<close> on the same empty string spawns nothing.
\<close>

theorem startApp_empty_runCmd:
  assumes "runCmd (watcher s) = []"
  shows "fst (startApp (Inr pid) s) = None
     \<and> Spawn [] \<in> set (snd (snd (startApp (Inr pid) s)))
     \<and> process (watcher (fst (snd (startApp (Inr pid) s)))) =
         Some \<lparr>ident = allocated s, Args = [], Process = Some pid\<rparr>
     \<and> \<lparr>ident = allocated s, Args = [], Process = Some pid\<rparr> \<in> set (waiting (fst (snd (startApp (Inr pid) s))))
     \<and> runShell out (runCmd (watcher s)) = (None, [])"
proof -
  obtain w1 evs1 where sp: "stopPrevious (watcher s) = (w1, evs1)" by (cases "stopPrevious (watcher s)")
  have rc: "runCmd w1 = []" using stopPrevious_runCmd [OF sp] assms by simp
  show ?thesis using assms sp rc by (simp add: startApp_def Let_def runShell_def)
qed

lemma inv_step:
  assumes "\<forall>c. process (watcher s) = Some c \<longrightarrow> ident c < allocated s \<and> Process c \<noteq> None"
  shows "\<forall>c. process (watcher (step s a)) = Some c \<longrightarrow> ident c < allocated (step s a) \<and> Process c \<noteq> None"
  using assms
  by (cases a) (auto simp: startApp_def stopPrevious_def exitWatcher_def Let_def split: option.splits sum.splits prod.splits)

lemma inv_run:
  assumes "\<forall>c. process (watcher s) = Some c \<longrightarrow> ident c < allocated s \<and> Process c \<noteq> None"
  shows "\<forall>c. process (watcher (run acts s)) = Some c \<longrightarrow> ident c < allocated (run acts s) \<and> Process c \<noteq> None"
  using assms unfolding run_def
proof (induction acts arbitrary: s)
  case Nil then show ?case by simp
next
  case (Cons a acts)
  show ?case using Cons.IH [OF inv_step [OF Cons.prems]] by simp
qed

lemma gone_step:
  assumes "i < allocated s" and "\<forall>c'. process (watcher s) = Some c' \<longrightarrow> ident c' \<noteq> i"
  shows "i < allocated (step s a) \<and> (\<forall>c'. process (watcher (step s a)) = Some c' \<longrightarrow> ident c' \<noteq> i)"
  using assms
  by (cases a) (auto simp: startApp_def stopPrevious_def exitWatcher_def Let_def split: option.splits sum.splits prod.splits)

lemma gone_run:
  assumes "i < allocated s" and "\<forall>c'. process (watcher s) = Some c' \<longrightarrow> ident c' \<noteq> i"
  shows "\<forall>c'. process (watcher (run acts s)) = Some c' \<longrightarrow> ident c' \<noteq> i"
  using assms unfolding run_def
proof (induction acts arbitrary: s)
  case Nil then show ?case by simp
next
  case (Cons a acts)
  have "i < allocated (step s a) \<and> (\<forall>c'. process (watcher (step s a)) = Some c' \<longrightarrow> ident c' \<noteq> i)"
    using gone_step [OF Cons.prems] .
  then show ?case using Cons.IH [of "step s a"] by simp
qed

lemma restart_kills:
  assumes "process (watcher s) = Some c" and "Process c = Some pid"
  shows "Kill pid \<in> set (snd (snd (startApp r s)))"
    and "ident c < allocated s \<Longrightarrow> ident c < allocated (step s (Restart r))
       \<and> (\<forall>c'. process (watcher (step s (Restart r))) = Some c' \<longrightarrow> ident c' \<noteq> ident c)"
  using assms by (auto simp: startApp_def stopPrevious_def Let_def split: sum.splits)

text \<open>
  C8. From a watcher with no process, after any sequence of restarts and process exits
  at most one handle is tracked; and when a restart finds a handle \<open>c\<close>, it kills the
  process of \<open>c\<close>, and after that restart and any further restarts and exits the
  tracked handle is never \<open>c\<close> again, nor any handle of the identity of \<open>c\<close>.
\<close>

theorem supervisor_single_instance:
  assumes "process w = None"
    and "process (watcher (run acts1 (boot w))) = Some c"
  shows "card (tracked (run acts2 (step (run acts1 (boot w)) (Restart r)))) \<le> 1
    \<and> c \<notin> tracked (run acts2 (step (run acts1 (boot w)) (Restart r)))
    \<and> (\<forall>c'. process (watcher (run acts2 (step (run acts1 (boot w)) (Restart r)))) = Some c' \<longrightarrow> ident c' \<noteq> ident c)
    \<and> (\<exists>pid. Process c = Some pid \<and> Kill pid \<in> set (snd (snd (startApp r (run acts1 (boot w))))))
    \<and> card (tracked (run acts (boot w))) \<le> 1"
proof -
  let ?s1 = "run acts1 (boot w)"
  have i0: "\<forall>c. process (watcher (boot w)) = Some c \<longrightarrow> ident c < allocated (boot w) \<and> Process c \<noteq> None"
    using assms(1) by (simp add: boot_def)
  from inv_run [OF i0, of acts1] assms(2)
  have c: "ident c < allocated ?s1" "Process c \<noteq> None" by auto
  then obtain pid where pid: "Process c = Some pid" by auto
  have k: "Kill pid \<in> set (snd (snd (startApp r ?s1)))" using restart_kills(1) [OF assms(2) pid] .
  have g: "ident c < allocated (step ?s1 (Restart r))
       \<and> (\<forall>c'. process (watcher (step ?s1 (Restart r))) = Some c' \<longrightarrow> ident c' \<noteq> ident c)"
    using restart_kills(2) [OF assms(2) pid c(1)] .
  have n: "\<forall>c'. process (watcher (run acts2 (step ?s1 (Restart r)))) = Some c' \<longrightarrow> ident c' \<noteq> ident c"
    using gone_run [of "ident c" "step ?s1 (Restart r)" acts2] g by blast
  have t: "card (tracked (run acts2 (step ?s1 (Restart r)))) \<le> 1"
    by (cases "process (watcher (run acts2 (step ?s1 (Restart r))))") (simp_all add: tracked_def)
  have m: "c \<notin> tracked (run acts2 (step ?s1 (Restart r)))" using n by (auto simp: tracked_def)
  have a: "card (tracked (run acts (boot w))) \<le> 1"
    by (cases "process (watcher (run acts (boot w)))") (simp_all add: tracked_def)
  show ?thesis using n t m k pid a by blast
qed

text \<open>
  C1. The goroutine clears the handle whatever it refers to. A first restart starts
  command 0, a second one kills it and starts command 1, which becomes the handle; the
  exit of command 0 then wakes its goroutine, which clears the handle although command 1
  runs on (its goroutine still waits). A third restart finds no handle and kills nothing.
\<close>

theorem exitWatcher_clears_newer_handle:
  "process (watcher (run [Restart (Inr 100), Restart (Inr 101)] (boot (NewWatcher ''.'' 1 ''make'' ''./app'' [] [] [] []))))
     = Some \<lparr>ident = 1, Args = ''./app'', Process = Some 101\<rparr>
   \<and> waiting (run [Restart (Inr 100), Restart (Inr 101), ProcExit 0] (boot (NewWatcher ''.'' 1 ''make'' ''./app'' [] [] [] [])))
     = [\<lparr>ident = 1, Args = ''./app'', Process = Some 101\<rparr>]
   \<and> process (watcher (run [Restart (Inr 100), Restart (Inr 101), ProcExit 0] (boot (NewWatcher ''.'' 1 ''make'' ''./app'' [] [] [] [])))) = None
   \<and> snd (snd (startApp (Inr 102) (run [Restart (Inr 100), Restart (Inr 101), ProcExit 0] (boot (NewWatcher ''.'' 1 ''make'' ''./app'' [] [] [] [])))))
     = [Log StartingApp, Spawn ''./app'']"
  by (simp add: run_def boot_def NewWatcher_def startApp_def stopPrevious_def exitWatcher_def Let_def)

section \<open>The walk of hashDir, item by item\<close>

lemma fn_dir:
  "IsDir i \<Longrightarrow> hashDir_fn tstr s p (Some i) None =
     (if Name i = [] then (Panic, s) else if hidden i then (SkipDir, s) else (RetNil, s))"
  by (auto simp: hashDir_fn_def hidden_def split: list.splits)

lemma fn_dir_err:
  "hashDir_fn tstr s p info (Some e) = (RetNil, s\<lparr>sc_log := sc_log s @ [Log (ErrorAccessing p e)]\<rparr>)"
  by (simp add: hashDir_fn_def)

lemma fn_file:
  "\<not> IsDir i \<Longrightarrow> hashDir_fn tstr s p (Some i) None = (RetNil, hashFile tstr s p i)"
  by (simp add: hashDir_fn_def)

lemma walk_ok:
  "\<not> reachesNoName info rd kids \<Longrightarrow>
     walk (hashDir_fn tstr) p info rd kids s =
       (if IsDir info \<and> rd = None \<and> hidden info then SkipDir else RetNil,
        foldl (absorb tstr) s (trav p info rd kids))"
  and walkNames_ok:
  "\<not> reachesNoNames ns \<Longrightarrow>
     walkNames (hashDir_fn tstr) p ns s = (RetNil, foldl (absorb tstr) s (travNames p ns))"
proof (induction p info rd kids and p ns arbitrary: s and s rule: trav_travNames.induct)
  case (1 p info rd kids)
  show ?case
  proof (cases "IsDir info")
    case False
    then show ?thesis by (simp add: fn_file)
  next
    case dir: True
    show ?thesis
    proof (cases rd)
      case (Some e)
      then show ?thesis using dir by (simp add: fn_dir_err)
    next
      case None
      have nn: "Name info \<noteq> []" using "1.prems" dir None by auto
      show ?thesis
      proof (cases "hidden info")
        case True
        then show ?thesis using dir None nn by (simp add: fn_dir)
      next
        case False
        have "\<not> reachesNoNames kids" using "1.prems" dir None False by auto
        with "1.IH" show ?thesis using dir None nn False by (simp add: fn_dir)
      qed
    qed
  qed
next
  case (2 p)
  show ?case by simp
next
  case (3 p name e rest)
  then show ?case by (simp add: fn_dir_err)
next
  case (4 p info rd kids rest)
  have a: "\<not> reachesNoName info rd kids" and b: "\<not> reachesNoNames rest" using "4.prems" by auto
  show ?case
    using "4.IH"(1) [OF a] "4.IH"(2) [OF b] by (simp del: walk.simps trav.simps)
qed

lemma walk_panic:
  "reachesNoName info rd kids \<Longrightarrow> fst (walk (hashDir_fn tstr) p info rd kids s) = Panic"
  and walkNames_panic:
  "reachesNoNames ns \<Longrightarrow> fst (walkNames (hashDir_fn tstr) p ns s) = Panic"
proof (induction p info rd kids and p ns arbitrary: s and s rule: trav_travNames.induct)
  case (1 p info rd kids)
  from "1.prems" have dir: "IsDir info" and rd: "rd = None" by auto
  show ?case
  proof (cases "Name info = []")
    case True
    then show ?thesis using dir rd by (simp add: fn_dir)
  next
    case False
    with "1.prems" have h: "\<not> hidden info" and k: "reachesNoNames kids" by auto
    with "1.IH" show ?thesis using dir rd False by (simp add: fn_dir)
  qed
next
  case (2 p)
  then show ?case by simp
next
  case (3 p name e rest)
  then show ?case by (simp add: fn_dir_err)
next
  case (4 p info rd kids rest)
  show ?case
  proof (cases "reachesNoName info rd kids")
    case True
    from "4.IH"(1) [OF True, of s]
    show ?thesis by (simp del: walk.simps add: split_beta)
  next
    case False
    with "4.prems" have r: "reachesNoNames rest" by (simp del: reachesNoName.simps)
    show ?thesis
      using walk_ok [OF False, of tstr "p @ [Name info]" s] "4.IH"(2) [OF r]
      by (simp del: walk.simps trav.simps)
  qed
qed

lemma hidden_named: "hidden i \<Longrightarrow> Name i \<noteq> []"
  by (auto simp: hidden_def)

lemma hashDir_eq:
  "hashDir tstr root w0 =
     (if rootNoName root then None
      else (let s = foldl (absorb tstr) \<lparr>sc_h = offset64, sc_depChanged = False, sc_w = w0, sc_log = []\<rparr> (travRoot root)
            in Some ((sc_h s, sc_depChanged s, None), sc_w s, sc_log s)))"
proof (cases root)
  case (NoStat name e)
  then show ?thesis by (simp add: hashDir_def Walk_def fn_dir_err)
next
  case (Entry info rd kids)
  show ?thesis
  proof (cases "reachesNoName info rd kids")
    case True
    from walk_panic [OF True, of tstr "[]" "\<lparr>sc_h = offset64, sc_depChanged = False, sc_w = w0, sc_log = []\<rparr>"]
    show ?thesis using Entry True by (simp add: hashDir_def Walk_def split_beta del: walk.simps split: prod.splits)
  next
    case False
    from walk_ok [OF False, of tstr "[]" "\<lparr>sc_h = offset64, sc_depChanged = False, sc_w = w0, sc_log = []\<rparr>"]
    show ?thesis using Entry False by (auto simp add: hashDir_def Walk_def Let_def hidden_named simp del: walk.simps trav.simps)
  qed
qed

section \<open>What the callback accumulates\<close>

lemma shouldProcess_prevDep [simp]:
  "shouldProcess (w\<lparr>prevDepMTime := t\<rparr>) = shouldProcess w"
  by (rule ext) (simp add: shouldProcess_def)

lemma absorb_w:
  "sc_w (absorb tstr s it) = (sc_w s)\<lparr>prevDepMTime := prevDepMTime (sc_w (absorb tstr s it))\<rparr>"
  by (cases it) (simp_all add: hashFile_def Let_def)

lemma depTimes_prevDep [simp]: "depTimes (w\<lparr>prevDepMTime := t\<rparr>) its = depTimes w its"
  by (induction w its rule: depTimes.induct) simp_all

lemma absorb_dep:
  assumes "depFile (sc_w s) \<noteq> []"
  shows "sc_depChanged (absorb tstr s it) =
           (sc_depChanged s \<or> (\<exists>t \<in> set (depTimes (sc_w s) [it]). t \<noteq> prevDepMTime (sc_w s)))"
    and "prevDepMTime (sc_w (absorb tstr s it)) =
           (if depTimes (sc_w s) [it] = [] then prevDepMTime (sc_w s) else last (depTimes (sc_w s) [it]))"
  using assms by (cases it; auto simp: hashFile_def Let_def)+

lemma absorb_depFile [simp]: "depFile (sc_w (absorb tstr s it)) = depFile (sc_w s)"
  by (cases it) (simp_all add: hashFile_def Let_def)

lemma depTimes_absorb [simp]: "depTimes (sc_w (absorb tstr s it)) its = depTimes (sc_w s) its"
  by (subst absorb_w) simp

lemma depTimes_Cons: "depTimes w (it # its) = depTimes w [it] @ depTimes w its"
  by (cases it) simp_all

lemma fold_dep:
  assumes "depFile (sc_w s) \<noteq> []"
  shows "sc_depChanged (foldl (absorb tstr) s its) =
           (sc_depChanged s \<or> (\<exists>t \<in> set (depTimes (sc_w s) its). t \<noteq> prevDepMTime (sc_w s)))
       \<and> prevDepMTime (sc_w (foldl (absorb tstr) s its)) =
           (if depTimes (sc_w s) its = [] then prevDepMTime (sc_w s) else last (depTimes (sc_w s) its))"
  using assms
proof (induction its arbitrary: s)
  case Nil
  then show ?case by simp
next
  case (Cons it its)
  let ?s1 = "absorb tstr s it"
  let ?D = "depTimes (sc_w s) its"
  have d: "depFile (sc_w ?s1) \<noteq> []" using Cons.prems by simp
  have ih1: "sc_depChanged (foldl (absorb tstr) ?s1 its) =
      (sc_depChanged ?s1 \<or> (\<exists>t \<in> set ?D. t \<noteq> prevDepMTime (sc_w ?s1)))"
    and ih2: "prevDepMTime (sc_w (foldl (absorb tstr) ?s1 its)) =
      (if ?D = [] then prevDepMTime (sc_w ?s1) else last ?D)"
    using Cons.IH [OF d] by simp_all
  note a = absorb_dep [OF Cons.prems, of tstr it]
  have "depTimes (sc_w s) [it] = [] \<or> (\<exists>t0. depTimes (sc_w s) [it] = [t0])"
    by (cases it) simp_all
  then consider (none) "depTimes (sc_w s) [it] = []" | (one) t0 where "depTimes (sc_w s) [it] = [t0]"
    by blast
  then show ?case
  proof cases
    case none
    have e: "depTimes (sc_w s) (it # its) = ?D" using none by (subst depTimes_Cons) simp
    have "sc_depChanged ?s1 = sc_depChanged s" "prevDepMTime (sc_w ?s1) = prevDepMTime (sc_w s)"
      using a none by simp_all
    then show ?thesis using ih1 ih2 e by simp
  next
    case one
    have e: "depTimes (sc_w s) (it # its) = t0 # ?D" using one by (subst depTimes_Cons) simp
    have p: "sc_depChanged ?s1 = (sc_depChanged s \<or> t0 \<noteq> prevDepMTime (sc_w s))"
      "prevDepMTime (sc_w ?s1) = t0"
      using a one by simp_all
    have "sc_depChanged (foldl (absorb tstr) ?s1 its) =
        (sc_depChanged s \<or> t0 \<noteq> prevDepMTime (sc_w s) \<or> (\<exists>t \<in> set ?D. t \<noteq> prevDepMTime (sc_w s)))"
      unfolding ih1 p by blast
    moreover have "prevDepMTime (sc_w (foldl (absorb tstr) ?s1 its)) = last (t0 # ?D)"
      unfolding ih2 p by simp
    ultimately show ?thesis unfolding e by simp
  qed
qed

lemma absorb_w_ex: "\<exists>t. sc_w (absorb tstr s it) = (sc_w s)\<lparr>prevDepMTime := t\<rparr>"
  using absorb_w [of tstr s it] by blast

lemma fold_w_ex: "\<exists>t. sc_w (foldl (absorb tstr) s its) = (sc_w s)\<lparr>prevDepMTime := t\<rparr>"
proof (induction its arbitrary: s)
  case Nil
  have "sc_w s = (sc_w s)\<lparr>prevDepMTime := prevDepMTime (sc_w s)\<rparr>" by simp
  then show ?case by (simp only: foldl_Nil) (rule exI)
next
  case (Cons it its)
  obtain t1 where t1: "sc_w (absorb tstr s it) = (sc_w s)\<lparr>prevDepMTime := t1\<rparr>"
    using absorb_w_ex by blast
  obtain t2 where t2: "sc_w (foldl (absorb tstr) (absorb tstr s it) its) = (sc_w (absorb tstr s it))\<lparr>prevDepMTime := t2\<rparr>"
    using Cons.IH by blast
  have "sc_w (foldl (absorb tstr) s (it # its)) = (sc_w s)\<lparr>prevDepMTime := t2\<rparr>"
    using t1 t2 by simp
  then show ?case by (rule exI)
qed

lemma fold_nodep:
  assumes "depFile (sc_w s) = []"
  shows "sc_depChanged (foldl (absorb tstr) s its) = sc_depChanged s
       \<and> sc_w (foldl (absorb tstr) s its) = sc_w s"
  using assms
proof (induction its arbitrary: s)
  case Nil
  then show ?case by simp
next
  case (Cons it its)
  have "sc_depChanged (absorb tstr s it) = sc_depChanged s \<and> sc_w (absorb tstr s it) = sc_w s"
    using Cons.prems by (cases it) (simp_all add: hashFile_def Let_def)
  then show ?case using Cons.IH [of "absorb tstr s it"] Cons.prems by simp
qed

lemma shouldProcess_cong:
  "includes' w = includes' w' \<Longrightarrow> excludes w = excludes w' \<Longrightarrow> shouldProcess w = shouldProcess w'"
  by (rule ext) (simp add: shouldProcess_def)

lemma fold_hash:
  assumes "includes' (sc_w s) = includes' (sc_w t)" and "excludes (sc_w s) = excludes (sc_w t)"
    and "sc_h s = sc_h t"
  shows "sc_h (foldl (absorb tstr) s its) = sc_h (foldl (absorb tstr) t its)"
  using assms
proof (induction its arbitrary: s t)
  case Nil
  then show ?case by simp
next
  case (Cons it its)
  have sp: "shouldProcess (sc_w s) = shouldProcess (sc_w t)"
    using Cons.prems(1,2) by (rule shouldProcess_cong)
  have 1: "includes' (sc_w (absorb tstr s it)) = includes' (sc_w (absorb tstr t it))"
    using Cons.prems(1) by (subst (1 2) absorb_w) simp
  have 2: "excludes (sc_w (absorb tstr s it)) = excludes (sc_w (absorb tstr t it))"
    using Cons.prems(2) by (subst (1 2) absorb_w) simp
  have 3: "sc_h (absorb tstr s it) = sc_h (absorb tstr t it)"
    using Cons.prems(3) sp by (cases it) (simp_all add: hashFile_def Let_def)
  show ?case using Cons.IH [OF 1 2 3] by simp
qed

lemma depTimes_mem:
  "t \<in> set (depTimes w its) =
     (\<exists>p i. FileItem p i \<in> set its \<and> shouldProcess w (Rel p) \<and> Name i = Base (depFile w) \<and> ModTime i = t)"
  by (induction w its rule: depTimes.induct) auto

section \<open>What a scan and a tick leave unchanged\<close>

lemma fold_log: "sc_log (foldl (absorb tstr) s its) = sc_log s @ scanLog its"
proof (induction its arbitrary: s)
  case Nil
  then show ?case by simp
next
  case (Cons it its)
  show ?case using Cons.IH [of "absorb tstr s it"]
    by (cases it) (simp_all add: hashFile_def Let_def)
qed

lemma scanLog_only:
  "ev \<in> set (scanLog its) \<Longrightarrow> \<exists>p e. ev = Log (ErrorAccessing p e)"
  by (induction its rule: scanLog.induct) auto

lemma hashDir_log:
  "hashDir tstr root w = Some (res, w1, lg) \<Longrightarrow> lg = scanLog (travRoot root)"
  by (auto simp: hashDir_eq Let_def fold_log split: if_splits)

lemma hashDir_watcher:
  assumes "hashDir tstr root w = Some (res, w1, lg)"
  shows "\<exists>t. w1 = w\<lparr>prevDepMTime := t\<rparr>"
proof -
  let ?s0 = "\<lparr>sc_h = offset64, sc_depChanged = False, sc_w = w, sc_log = []\<rparr>"
  have "w1 = sc_w (foldl (absorb tstr) ?s0 (travRoot root))"
    using assms by (auto simp: hashDir_eq Let_def split: if_splits)
  then show ?thesis using fold_w_ex [of tstr ?s0 "travRoot root"] by simp
qed

lemma hashDir_hash_indep:
  assumes "hashDir tstr root w = Some ((hsh, dc, err), w1, lg)"
    and "includes' w' = includes' w" and "excludes w' = excludes w"
  shows "\<exists>dc' w1'. hashDir tstr root w' = Some ((hsh, dc', None), w1', lg)"
proof -
  let ?s0 = "\<lparr>sc_h = offset64, sc_depChanged = False, sc_w = w, sc_log = []\<rparr>"
  let ?t0 = "\<lparr>sc_h = offset64, sc_depChanged = False, sc_w = w', sc_log = []\<rparr>"
  have n: "\<not> rootNoName root" and h: "hsh = sc_h (foldl (absorb tstr) ?s0 (travRoot root))"
    and l: "lg = scanLog (travRoot root)"
    using assms(1) by (auto simp: hashDir_eq Let_def fold_log split: if_splits)
  have "sc_h (foldl (absorb tstr) ?t0 (travRoot root)) = sc_h (foldl (absorb tstr) ?s0 (travRoot root))"
    by (rule fold_hash) (simp_all add: assms(2,3))
  then show ?thesis using n h l by (simp add: hashDir_eq Let_def fold_log)
qed

lemma stopPrevious_watcher: "\<exists>pr. fst (stopPrevious w) = w\<lparr>process := pr\<rparr>"
proof (cases "stopPrevious w = (w, [])")
  case True
  have "w = w\<lparr>process := process w\<rparr>" by simp
  then show ?thesis using True by (metis fst_conv)
next
  case False
  then have "fst (stopPrevious w) = w\<lparr>process := None\<rparr>"
    by (auto simp: stopPrevious_def split: option.splits)
  then show ?thesis by (rule exI)
qed

lemma startApp_watcher: "\<exists>pr. watcher (fst (snd (startApp r s))) = (watcher s)\<lparr>process := pr\<rparr>"
proof -
  obtain pr where pr: "fst (stopPrevious (watcher s)) = (watcher s)\<lparr>process := pr\<rparr>"
    using stopPrevious_watcher by blast
  show ?thesis
  proof (cases r)
    case (Inl a)
    then have "watcher (fst (snd (startApp r s))) = (watcher s)\<lparr>process := pr\<rparr>"
      using pr by (simp add: startApp_def split_beta)
    then show ?thesis by (rule exI)
  next
    case (Inr pid)
    then have "watcher (fst (snd (startApp r s))) = (watcher s)\<lparr>process :=
        Some \<lparr>ident = allocated s, Args = runCmd (fst (stopPrevious (watcher s))), Process = Some pid\<rparr>\<rparr>"
      using pr by (simp add: startApp_def split_beta Let_def)
    then show ?thesis by (rule exI)
  qed
qed

lemma step_watcher: "\<exists>pr. watcher (step s a) = (watcher s)\<lparr>process := pr\<rparr>"
proof (cases a)
  case (Restart r)
  then show ?thesis using startApp_watcher [of r s] by simp
next
  case (ProcExit i)
  show ?thesis
  proof (cases "find (\<lambda>c. ident c = i) (waiting s)")
    case None
    have "watcher s = (watcher s)\<lparr>process := process (watcher s)\<rparr>" by simp
    then show ?thesis using ProcExit None by (metis option.simps(4) step.simps(2))
  next
    case (Some c)
    then have "watcher (step s a) = (watcher s)\<lparr>process := None\<rparr>"
      using ProcExit by (simp add: exitWatcher_def)
    then show ?thesis by (rule exI)
  qed
qed

lemma run_watcher: "\<exists>pr. watcher (run acts s) = (watcher s)\<lparr>process := pr\<rparr>"
  unfolding run_def
proof (induction acts arbitrary: s)
  case Nil
  have "watcher s = (watcher s)\<lparr>process := process (watcher s)\<rparr>" by simp
  then show ?case by (simp only: foldl_Nil) (rule exI)
next
  case (Cons a acts)
  obtain p1 where p1: "watcher (step s a) = (watcher s)\<lparr>process := p1\<rparr>"
    using step_watcher by blast
  obtain p2 where p2: "watcher (foldl step (step s a) acts) = (watcher (step s a))\<lparr>process := p2\<rparr>"
    using Cons.IH by blast
  have "watcher (foldl step s (a # acts)) = (watcher s)\<lparr>process := p2\<rparr>"
    using p1 p2 by simp
  then show ?case by (rule exI)
qed

lemma react_watcher:
  "\<exists>hp pr. watcher (fst (react e res s)) = (watcher s)\<lparr>prevHash := hp, process := pr\<rparr>"
proof -
  obtain hsh dc err where res: "res = (hsh, dc, err)" by (cases res) auto
  have id: "watcher s = (watcher s)\<lparr>prevHash := prevHash (watcher s), process := process (watcher s)\<rparr>"
    by simp
  have h: "(watcher s)\<lparr>prevHash := hsh\<rparr> = (watcher s)\<lparr>prevHash := hsh, process := process (watcher s)\<rparr>"
    by simp
  obtain pr where pr: "watcher (fst (snd (startApp (appStart e) (s\<lparr>watcher := (watcher s)\<lparr>prevHash := hsh\<rparr>\<rparr>))))
      = (watcher s)\<lparr>prevHash := hsh, process := pr\<rparr>"
    using startApp_watcher [of "appStart e" "s\<lparr>watcher := (watcher s)\<lparr>prevHash := hsh\<rparr>\<rparr>"] by auto
  have "fst (react e res s) = s
    \<or> fst (react e res s) = s\<lparr>watcher := (watcher s)\<lparr>prevHash := hsh\<rparr>\<rparr>
    \<or> fst (react e res s) = fst (snd (startApp (appStart e) (s\<lparr>watcher := (watcher s)\<lparr>prevHash := hsh\<rparr>\<rparr>)))"
    unfolding res react_def
    by (simp add: Let_def split: option.splits prod.splits)
  then consider (a) "fst (react e res s) = s"
    | (b) "fst (react e res s) = s\<lparr>watcher := (watcher s)\<lparr>prevHash := hsh\<rparr>\<rparr>"
    | (c) "fst (react e res s) = fst (snd (startApp (appStart e) (s\<lparr>watcher := (watcher s)\<lparr>prevHash := hsh\<rparr>\<rparr>)))"
    by blast
  then show ?thesis
  proof cases
    case a then show ?thesis using id by metis
  next
    case b then show ?thesis using h by (metis Sys.select_convs(1) Sys.surjective Sys.update_convs(1))
  next
    case c then show ?thesis using pr by metis
  qed
qed

section \<open>Properties of the scan and of the loop\<close>

lemma cycle_prevDep:
  assumes "hashDir tstr (tree e) (watcher s) = Some (res, w1, lg)"
    and "cycle tstr e s = Some (s', evs)"
  shows "prevDepMTime (watcher s') = prevDepMTime w1"
proof -
  have s': "s' = fst (react e res (s\<lparr>watcher := w1\<rparr>))"
    using assms by (simp add: cycle_def split_beta)
  obtain hp pr where "watcher s' = (watcher (s\<lparr>watcher := w1\<rparr>))\<lparr>prevHash := hp, process := pr\<rparr>"
    unfolding s' using react_watcher by blast
  then show ?thesis by simp
qed

lemma hashDir_dep:
  assumes "depFile w \<noteq> []"
    and "hashDir tstr root w = Some ((hsh, depChanged, err), w', lg)"
  shows "depChanged = (\<exists>t \<in> set (depTimes w (travRoot root)). t \<noteq> prevDepMTime w)"
    and "prevDepMTime w' =
      (if depTimes w (travRoot root) = [] then prevDepMTime w else last (depTimes w (travRoot root)))"
proof -
  let ?s0 = "\<lparr>sc_h = offset64, sc_depChanged = False, sc_w = w, sc_log = []\<rparr>"
  have d: "depFile (sc_w ?s0) \<noteq> []" using assms(1) by simp
  have r: "depChanged = sc_depChanged (foldl (absorb tstr) ?s0 (travRoot root))"
    "w' = sc_w (foldl (absorb tstr) ?s0 (travRoot root))"
    using assms(2) by (auto simp: hashDir_eq Let_def split: if_splits)
  show "depChanged = (\<exists>t \<in> set (depTimes w (travRoot root)). t \<noteq> prevDepMTime w)"
    unfolding r using fold_dep [OF d, of tstr "travRoot root"] by simp
  show "prevDepMTime w' =
      (if depTimes w (travRoot root) = [] then prevDepMTime w else last (depTimes w (travRoot root)))"
    unfolding r using fold_dep [OF d, of tstr "travRoot root"] by simp
qed

text \<open>
  C6. With a dependency file configured, a scan that returns reports \<open>depChanged\<close> exactly
  when some file the walk hands over passes the filter, has the base name of the
  dependency file and a modification time other than the stored one. Then the stored time
  becomes the time of such a file (of the last one walked); without a change it stays.
  Files the filter rejects take no part. The tick keeps the time the scan stored, whatever
  the commands do.
\<close>

theorem hashDir_depChanged:
  assumes "depFile w \<noteq> []"
    and "hashDir tstr root w = Some ((hsh, depChanged, err), w', lg)"
  shows "depChanged =
       (\<exists>p i. FileItem p i \<in> set (travRoot root) \<and> shouldProcess w (Rel p)
           \<and> Name i = Base (depFile w) \<and> ModTime i \<noteq> prevDepMTime w)
     \<and> (depChanged \<longrightarrow>
          prevDepMTime w' = last (depTimes w (travRoot root))
          \<and> (\<exists>p i. FileItem p i \<in> set (travRoot root) \<and> shouldProcess w (Rel p)
                \<and> Name i = Base (depFile w) \<and> prevDepMTime w' = ModTime i))
     \<and> (\<not> depChanged \<longrightarrow> prevDepMTime w' = prevDepMTime w)
     \<and> (\<forall>e s s' evs. watcher s = w \<and> tree e = root \<and> cycle tstr e s = Some (s', evs)
          \<longrightarrow> prevDepMTime (watcher s') = prevDepMTime w')"
proof -
  let ?D = "depTimes w (travRoot root)"
  note d = hashDir_dep [OF assms]
  have 1: "depChanged =
       (\<exists>p i. FileItem p i \<in> set (travRoot root) \<and> shouldProcess w (Rel p)
           \<and> Name i = Base (depFile w) \<and> ModTime i \<noteq> prevDepMTime w)"
  proof -
    have "(\<exists>t \<in> set ?D. t \<noteq> prevDepMTime w) = (\<exists>t. t \<in> set ?D \<and> t \<noteq> prevDepMTime w)"
      by blast
    also have "\<dots> = (\<exists>t. (\<exists>p i. FileItem p i \<in> set (travRoot root) \<and> shouldProcess w (Rel p)
           \<and> Name i = Base (depFile w) \<and> ModTime i = t) \<and> t \<noteq> prevDepMTime w)"
      by (simp only: depTimes_mem)
    also have "\<dots> = (\<exists>p i. FileItem p i \<in> set (travRoot root) \<and> shouldProcess w (Rel p)
           \<and> Name i = Base (depFile w) \<and> ModTime i \<noteq> prevDepMTime w)"
      by blast
    finally show ?thesis unfolding d(1) .
  qed
  have 2: "depChanged \<longrightarrow> prevDepMTime w' = last ?D
          \<and> (\<exists>p i. FileItem p i \<in> set (travRoot root) \<and> shouldProcess w (Rel p)
                \<and> Name i = Base (depFile w) \<and> prevDepMTime w' = ModTime i)"
  proof
    assume depChanged
    then have ne: "?D \<noteq> []" using d(1) by auto
    then have l: "prevDepMTime w' = last ?D" using d(2) by simp
    have "last ?D \<in> set ?D" using ne by simp
    then have "\<exists>p i. FileItem p i \<in> set (travRoot root) \<and> shouldProcess w (Rel p)
                \<and> Name i = Base (depFile w) \<and> ModTime i = last ?D"
      by (simp only: depTimes_mem)
    then show "prevDepMTime w' = last ?D
          \<and> (\<exists>p i. FileItem p i \<in> set (travRoot root) \<and> shouldProcess w (Rel p)
                \<and> Name i = Base (depFile w) \<and> prevDepMTime w' = ModTime i)"
      using l by metis
  qed
  have 3: "\<not> depChanged \<longrightarrow> prevDepMTime w' = prevDepMTime w"
  proof
    assume n: "\<not> depChanged"
    show "prevDepMTime w' = prevDepMTime w"
    proof (cases "?D = []")
      case True
      then show ?thesis using d(2) by simp
    next
      case False
      then have "last ?D \<in> set ?D" by simp
      then have "last ?D = prevDepMTime w" using n d(1) by blast
      then show ?thesis using d(2) False by simp
    qed
  qed
  have 4: "\<forall>e s s' evs. watcher s = w \<and> tree e = root \<and> cycle tstr e s = Some (s', evs)
          \<longrightarrow> prevDepMTime (watcher s') = prevDepMTime w'"
    using cycle_prevDep assms(2) by blast
  show ?thesis using 1 2 3 4 by blast
qed

lemma cycle_unchanged:
  assumes "hashDir tstr (tree e) (watcher s) = Some ((hsh, dc, err), w1, lg)"
    and "hsh = prevHash (watcher s)"
  shows "cycle tstr e s = Some (s\<lparr>watcher := w1\<rparr>, lg @ [Sleep (interval (watcher s))])"
proof -
  obtain t where t: "w1 = (watcher s)\<lparr>prevDepMTime := t\<rparr>"
    using hashDir_watcher [OF assms(1)] by blast
  have e: "err = None" using assms(1) by (auto simp: hashDir_eq Let_def split: if_splits)
  show ?thesis using assms e t by (simp add: cycle_def react_def)
qed

lemma cycle_changed:
  assumes "hashDir tstr (tree e) (watcher s) = Some ((hsh, dc, err), w1, lg)"
    and "hsh \<noteq> prevHash (watcher s)"
    and "cycle tstr e s = Some (s', evs)"
  shows "prevHash (watcher s') = hsh" and "Log ChangeDetected \<in> set evs"
proof -
  obtain t where t: "w1 = (watcher s)\<lparr>prevDepMTime := t\<rparr>"
    using hashDir_watcher [OF assms(1)] by blast
  have e: "err = None" using assms(1) by (auto simp: hashDir_eq Let_def split: if_splits)
  let ?s1 = "s\<lparr>watcher := w1\<lparr>prevHash := hsh\<rparr>\<rparr>"
  obtain pr where pr: "watcher (fst (snd (startApp (appStart e) ?s1))) = (watcher ?s1)\<lparr>process := pr\<rparr>"
    using startApp_watcher by blast
  have r: "(s', evs) = (case react e (hsh, dc, None) (s\<lparr>watcher := w1\<rparr>) of (s', evs) \<Rightarrow> (s', lg @ evs))"
    using assms(1,3) e by (simp add: cycle_def split_beta)
  show "prevHash (watcher s') = hsh"
    using r assms(2) t pr
    by (auto simp: react_def Let_def split: option.splits prod.splits)
  show "Log ChangeDetected \<in> set evs"
    using r assms(2) t
    by (auto simp: react_def Let_def split: option.splits prod.splits)
qed

text \<open>The loop through a tick, some process exits and a second tick.\<close>

lemma Run_append:
  "Run tstr (os1 @ os2) s =
     (case Run tstr os1 s of
        None \<Rightarrow> None
      | Some (s1, e1) \<Rightarrow>
          (case Run tstr os2 s1 of
             None \<Rightarrow> None
           | Some (s2, e2) \<Rightarrow> Some (s2, e1 @ e2)))"
  by (induction tstr os1 s rule: Run.induct) (auto split: option.splits)

lemma Run_exits:
  "\<exists>xs. Run tstr (map AppExit is) s = Some (run (map ProcExit is) s, xs) \<and> set xs \<subseteq> {Log AppExited}"
proof (induction "is" arbitrary: s)
  case Nil
  then show ?case by (simp add: run_def)
next
  case (Cons i "is")
  obtain xs where xs: "Run tstr (map AppExit is) (step s (ProcExit i)) =
      Some (run (map ProcExit is) (step s (ProcExit i)), xs)" "set xs \<subseteq> {Log AppExited}"
    using Cons.IH by blast
  have r: "run (map ProcExit (i # is)) s = run (map ProcExit is) (step s (ProcExit i))"
    by (simp add: run_def)
  show ?case
  proof (cases "find (\<lambda>c. ident c = i) (waiting s)")
    case None
    then have "Run tstr (map AppExit (i # is)) s = Some (run (map ProcExit (i # is)) s, xs)"
      using xs(1) r by simp
    then show ?thesis using xs(2) by blast
  next
    case (Some c)
    then have "Run tstr (map AppExit (i # is)) s = Some (run (map ProcExit (i # is)) s, Log AppExited # xs)"
      using xs(1) r by (simp add: exitWatcher_def)
    moreover have "set (Log AppExited # xs) \<subseteq> {Log AppExited}" using xs(2) by simp
    ultimately show ?thesis by blast
  qed
qed

lemma Run_tick_exits_tick:
  assumes "cycle tstr e1 s = Some (s1, evs1)"
    and "cycle tstr e2 (run (map ProcExit is) s1) = Some (s2, evs2)"
  shows "\<exists>xs. Run tstr (Tick e1 # map AppExit is @ [Tick e2]) s = Some (s2, evs1 @ xs @ evs2)
           \<and> set xs \<subseteq> {Log AppExited}"
proof -
  obtain xs where xs: "Run tstr (map AppExit is) s1 = Some (run (map ProcExit is) s1, xs)"
    "set xs \<subseteq> {Log AppExited}"
    using Run_exits by blast
  have "Run tstr (map AppExit is @ [Tick e2]) s1 = Some (s2, xs @ evs2)"
    using xs(1) assms(2) by (simp add: Run_append)
  then have "Run tstr (Tick e1 # map AppExit is @ [Tick e2]) s = Some (s2, evs1 @ xs @ evs2)"
    using assms(1) by simp
  then show ?thesis using xs(2) by blast
qed

text \<open>
  C3. When the fingerprint of a tick differs from the stored one, the stored one is the
  new one after the tick, whatever the dependency, build and run commands did. After any
  process exits, a next tick over the same tree finds the fingerprint equal: it only logs
  the scan and sleeps, with no command run (so the loop, run through the two ticks, has
  spawned what the first tick spawned and no more), and it does so until a tick whose tree
  gives another fingerprint, which detects the change again.
\<close>

theorem prevHash_overwritten_before_build:
  assumes "hashDir tstr (tree e1) (watcher s) = Some ((hsh, dc, err), w1, lg)"
    and "hsh \<noteq> prevHash (watcher s)"
    and "cycle tstr e1 s = Some (s1, evs1)"
    and "tree e2 = tree e1"
  shows "prevHash (watcher s1) = hsh
     \<and> (\<exists>s2. cycle tstr e2 (run (map ProcExit exits) s1) = Some (s2, lg @ [Sleep (interval (watcher s))])
           \<and> prevHash (watcher s2) = hsh
           \<and> (\<forall>c. Spawn c \<notin> set lg) \<and> Log ChangeDetected \<notin> set lg \<and> Log RunningBuild \<notin> set lg
           \<and> (\<exists>xs. Run tstr (Tick e1 # map AppExit exits @ [Tick e2]) s =
                      Some (s2, evs1 @ xs @ lg @ [Sleep (interval (watcher s))])
                 \<and> set xs \<subseteq> {Log AppExited})
           \<and> (\<forall>e3 s3 evs3 h3 dc3 err3 w3 lg3.
                 hashDir tstr (tree e3) (watcher s2) = Some ((h3, dc3, err3), w3, lg3) \<and> h3 \<noteq> hsh
                 \<and> cycle tstr e3 s2 = Some (s3, evs3)
                 \<longrightarrow> Log ChangeDetected \<in> set evs3 \<and> prevHash (watcher s3) = h3))"
proof -
  let ?s1' = "run (map ProcExit exits) s1"
  have p1: "prevHash (watcher s1) = hsh" using cycle_changed(1) [OF assms(1,2,3)] .
  obtain t where t: "w1 = (watcher s)\<lparr>prevDepMTime := t\<rparr>"
    using hashDir_watcher [OF assms(1)] by blast
  have s1: "s1 = fst (react e1 (hsh, dc, err) (s\<lparr>watcher := w1\<rparr>))"
    using assms(1,3) by (simp add: cycle_def split_beta)
  obtain hp pr where w1: "watcher s1 = w1\<lparr>prevHash := hp, process := pr\<rparr>"
    unfolding s1 using react_watcher [of e1 "(hsh, dc, err)" "s\<lparr>watcher := w1\<rparr>"] by auto
  obtain pr' where w1': "watcher ?s1' = (watcher s1)\<lparr>process := pr'\<rparr>"
    using run_watcher by blast
  have cfg: "includes' (watcher ?s1') = includes' (watcher s)" "excludes (watcher ?s1') = excludes (watcher s)"
    "interval (watcher ?s1') = interval (watcher s)" "prevHash (watcher ?s1') = hsh"
    using w1 w1' t p1 by simp_all
  obtain dc' w2 where h2: "hashDir tstr (tree e2) (watcher ?s1') = Some ((hsh, dc', None), w2, lg)"
    using hashDir_hash_indep [OF assms(1) cfg(1,2)] assms(4) by auto
  have c2: "cycle tstr e2 ?s1' = Some (?s1'\<lparr>watcher := w2\<rparr>, lg @ [Sleep (interval (watcher s))])"
    using cycle_unchanged [OF h2] cfg by simp
  obtain t2 where t2: "w2 = (watcher ?s1')\<lparr>prevDepMTime := t2\<rparr>"
    using hashDir_watcher [OF h2] by blast
  have p2: "prevHash (watcher (?s1'\<lparr>watcher := w2\<rparr>)) = hsh" using t2 cfg by simp
  have lgs: "lg = scanLog (travRoot (tree e1))" using hashDir_log [OF assms(1)] .
  have l: "(\<forall>c. Spawn c \<notin> set lg) \<and> Log ChangeDetected \<notin> set lg \<and> Log RunningBuild \<notin> set lg"
    unfolding lgs using scanLog_only by blast
  have 3: "\<forall>e3 s3 evs3 h3 dc3 err3 w3 lg3.
                 hashDir tstr (tree e3) (watcher (?s1'\<lparr>watcher := w2\<rparr>)) = Some ((h3, dc3, err3), w3, lg3) \<and> h3 \<noteq> hsh
                 \<and> cycle tstr e3 (?s1'\<lparr>watcher := w2\<rparr>) = Some (s3, evs3)
                 \<longrightarrow> Log ChangeDetected \<in> set evs3 \<and> prevHash (watcher s3) = h3"
    using cycle_changed p2 by metis
  have 4: "\<exists>xs. Run tstr (Tick e1 # map AppExit exits @ [Tick e2]) s =
                      Some (?s1'\<lparr>watcher := w2\<rparr>, evs1 @ xs @ lg @ [Sleep (interval (watcher s))])
                 \<and> set xs \<subseteq> {Log AppExited}"
    using Run_tick_exits_tick [OF assms(3) c2] .
  show ?thesis using p1 c2 p2 l 3 4 by blast
qed

section \<open>The order of the steps of a tick\<close>

lemma cmd_Run_case:
  "cmd_Run out line =
     (case out of
        NotStarted e \<Rightarrow> (Some e, [])
      | Exited c \<Rightarrow> (if c = 0 then None else Some (ExitError c), [Spawn line, Waited c]))"
  by (cases out) simp_all

lemma c7_1:
  assumes "hsh \<noteq> prevHash (watcher s)"
    and "react e (hsh, depChanged, None) s = (s', evs)"
  shows "(Log (DepChangedRunning (depFile (watcher s)) (depCmd (watcher s))) \<in> set evs)
           = (depChanged \<and> depCmd (watcher s) \<noteq> [])"
  using assms
  by (auto simp: react_def runBuild_def runShell_def cmd_Run_case startApp_def stopPrevious_def Let_def
        split: option.splits prod.splits sum.splits outcome.splits if_splits)

lemma c7_2:
  assumes "hsh \<noteq> prevHash (watcher s)"
    and "react e (hsh, depChanged, None) s = (s', evs)"
    and "depChanged \<and> depCmd (watcher s) \<noteq> []"
    and "Log RunningBuild \<in> set evs"
  shows "depRun e = Exited 0
     \<and> upto (Log RunningBuild) evs =
         [Log ChangeDetected, Log (DepChangedRunning (depFile (watcher s)) (depCmd (watcher s))),
          Spawn (depCmd (watcher s)), Waited 0]"
  using assms
  by (auto simp: react_def runBuild_def runShell_def cmd_Run_case startApp_def stopPrevious_def Let_def upto_def
        split: option.splits prod.splits sum.splits outcome.splits if_splits)

lemma c7_3:
  assumes "hsh \<noteq> prevHash (watcher s)"
    and "react e (hsh, depChanged, None) s = (s', evs)"
    and "depChanged \<and> depCmd (watcher s) \<noteq> []"
    and "depRun e \<noteq> Exited 0"
  shows "Log RunningBuild \<notin> set evs \<and> Log StartingApp \<notin> set evs
     \<and> (\<forall>c. Spawn c \<in> set evs \<longrightarrow> c = depCmd (watcher s))
     \<and> (\<forall>p. Kill p \<notin> set evs)
     \<and> process (watcher s') = process (watcher s) \<and> waiting s' = waiting s \<and> allocated s' = allocated s"
  using assms
  by (auto simp: react_def runBuild_def runShell_def cmd_Run_case Let_def
        split: option.splits prod.splits outcome.splits if_splits)

lemma c7_4:
  assumes "hsh \<noteq> prevHash (watcher s)"
    and "react e (hsh, depChanged, None) s = (s', evs)"
    and "Log StartingApp \<in> set evs"
  shows "fst (runShell (buildRun e) (buildCmd (watcher s))) = None
     \<and> Log RunningBuild \<in> set (upto (Log StartingApp) evs)
     \<and> (buildCmd (watcher s) \<noteq> [] \<longrightarrow> buildRun e = Exited 0
          \<and> Spawn (buildCmd (watcher s)) \<in> set (upto (Log StartingApp) evs))"
  using assms
  by (auto simp: react_def runBuild_def runShell_def cmd_Run_case startApp_def stopPrevious_def Let_def upto_def
        split: option.splits prod.splits sum.splits outcome.splits if_splits)

lemma spawns_append: "spawns (xs @ ys) = spawns xs @ spawns ys"
  by (induction xs rule: spawns.induct) simp_all

lemma c7_6:
  assumes "hsh \<noteq> prevHash (watcher s)"
    and "react e (hsh, depChanged, None) s = (s', evs)"
    and "\<not> (depChanged \<and> depCmd (watcher s) \<noteq> [])"
  shows "Log RunningBuild \<in> set evs \<and> upto (Log RunningBuild) evs = [Log ChangeDetected]"
  using assms
  by (auto simp: react_def runBuild_def runShell_def cmd_Run_case startApp_def stopPrevious_def Let_def upto_def
        split: option.splits prod.splits sum.splits outcome.splits if_splits)

lemma c7_7:
  assumes "hsh \<noteq> prevHash (watcher s)"
    and "react e (hsh, depChanged, None) s = (s', evs)"
  shows "spawns evs =
      (if depChanged \<and> depCmd (watcher s) \<noteq> [] then
         (case depRun e of NotStarted er \<Rightarrow> [] | Exited c \<Rightarrow> [depCmd (watcher s)])
       else [])
      @ (if depChanged \<and> depCmd (watcher s) \<noteq> [] \<and> depRun e \<noteq> Exited 0 then []
         else
           (if buildCmd (watcher s) = [] then []
            else (case buildRun e of NotStarted er \<Rightarrow> [] | Exited c \<Rightarrow> [buildCmd (watcher s)]))
           @ (if buildCmd (watcher s) \<noteq> [] \<and> buildRun e \<noteq> Exited 0 then []
              else (case appStart e of Inl er \<Rightarrow> [] | Inr pid \<Rightarrow> [runCmd (watcher s)])))"
  using assms
  by (auto simp: react_def runBuild_def runShell_def cmd_Run_case startApp_def stopPrevious_def Let_def
        spawns_append
        split: option.splits prod.splits sum.splits outcome.splits if_splits)

lemma c7_5:
  assumes "hsh \<noteq> prevHash (watcher s)"
    and "react e (hsh, depChanged, None) s = (s', evs)"
    and "fst (runShell (buildRun e) (buildCmd (watcher s))) \<noteq> None"
  shows "Log StartingApp \<notin> set evs \<and> (\<forall>p. Kill p \<notin> set evs)
     \<and> process (watcher s') = process (watcher s) \<and> waiting s' = waiting s \<and> allocated s' = allocated s"
  using assms
  by (auto simp: react_def runBuild_def runShell_def cmd_Run_case Let_def
        split: option.splits prod.splits outcome.splits if_splits)

section \<open>The code on the small project\<close>

lemmas ex_defs = exTime_def exWatcher_def exTree_def exEnv_def NewWatcher_def zeroTime_def boot_def

lemmas eval_defs = hashDir_def Walk_def hashDir_fn_def hashFile_def shouldProcess_def HasPrefix_def
  HasSuffix_def Rel_def Base_def Sprintf_d_def offset64_def prime64_def Let_def
  cycle_def react_def runBuild_def runShell_def startApp_def stopPrevious_def exitWatcher_def run_def

lemma ex_scan:
  "hashDir exTime exTree exWatcher =
     Some ((9669519470683585104, True, None), exWatcher\<lparr>prevDepMTime := 7\<rparr>,
           [Log (ErrorAccessing [''gone.go''] (PathError ''no such file or directory''))])"
  by (simp add: ex_defs eval_defs)

lemma ex_cycle_build_fails:
  "cycle exTime (exEnv (Exited 0) (Exited 2)) (boot exWatcher) =
     Some (boot (exWatcher\<lparr>prevDepMTime := 7, prevHash := 9669519470683585104\<rparr>),
       [Log (ErrorAccessing [''gone.go''] (PathError ''no such file or directory'')),
        Log ChangeDetected, Log (DepChangedRunning ''go.mod'' ''go mod tidy''),
        Spawn ''go mod tidy'', Waited 0, Log RunningBuild, Spawn ''make'',
        Waited 2, Log (BuildFailed (ExitError 2)), Sleep 1])"
  by (simp add: ex_defs eval_defs)

text \<open>
  C7. In a tick that found the fingerprint changed: the dependency step is taken exactly
  when \<open>depChanged\<close> holds and a dependency command is configured; when the build step
  is reached after it, the dependency command has run to a successful end before; when
  the dependency command fails, the build command is not run, the restart is not called
  and the supervisor is untouched; the restart is called only after the build step, with
  the build command (if any) ended successfully; and a failing build means no restart.
  Without a dependency step nothing is run or logged between the detection of the change
  and the build step. The shells the tick spawns are, in this order and no others: the
  dependency command when its step is taken and the shell starts; then, unless that
  command failed, the build command when it is not empty and its shell starts; then,
  unless the build failed, the run command when its shell starts.
\<close>

theorem changed_cycle_order:
  assumes "hsh \<noteq> prevHash (watcher s)"
    and "react e (hsh, depChanged, None) s = (s', evs)"
  shows "((Log (DepChangedRunning (depFile (watcher s)) (depCmd (watcher s))) \<in> set evs)
           = (depChanged \<and> depCmd (watcher s) \<noteq> []))
     \<and> (depChanged \<and> depCmd (watcher s) \<noteq> [] \<and> Log RunningBuild \<in> set evs \<longrightarrow>
          depRun e = Exited 0
          \<and> upto (Log RunningBuild) evs =
              [Log ChangeDetected, Log (DepChangedRunning (depFile (watcher s)) (depCmd (watcher s))),
               Spawn (depCmd (watcher s)), Waited 0])
     \<and> (depChanged \<and> depCmd (watcher s) \<noteq> [] \<and> depRun e \<noteq> Exited 0 \<longrightarrow>
          Log RunningBuild \<notin> set evs \<and> Log StartingApp \<notin> set evs
          \<and> (\<forall>c. Spawn c \<in> set evs \<longrightarrow> c = depCmd (watcher s))
          \<and> (\<forall>p. Kill p \<notin> set evs)
          \<and> process (watcher s') = process (watcher s) \<and> waiting s' = waiting s
          \<and> allocated s' = allocated s)
     \<and> (Log StartingApp \<in> set evs \<longrightarrow>
          fst (runShell (buildRun e) (buildCmd (watcher s))) = None
          \<and> Log RunningBuild \<in> set (upto (Log StartingApp) evs)
          \<and> (buildCmd (watcher s) \<noteq> [] \<longrightarrow> buildRun e = Exited 0
               \<and> Spawn (buildCmd (watcher s)) \<in> set (upto (Log StartingApp) evs)))
     \<and> (fst (runShell (buildRun e) (buildCmd (watcher s))) \<noteq> None \<longrightarrow>
          Log StartingApp \<notin> set evs \<and> (\<forall>p. Kill p \<notin> set evs)
          \<and> process (watcher s') = process (watcher s) \<and> waiting s' = waiting s
          \<and> allocated s' = allocated s)
     \<and> (\<not> (depChanged \<and> depCmd (watcher s) \<noteq> []) \<longrightarrow>
          Log RunningBuild \<in> set evs \<and> upto (Log RunningBuild) evs = [Log ChangeDetected])
     \<and> spawns evs =
          (if depChanged \<and> depCmd (watcher s) \<noteq> [] then
             (case depRun e of NotStarted er \<Rightarrow> [] | Exited c \<Rightarrow> [depCmd (watcher s)])
           else [])
          @ (if depChanged \<and> depCmd (watcher s) \<noteq> [] \<and> depRun e \<noteq> Exited 0 then []
             else
               (if buildCmd (watcher s) = [] then []
                else (case buildRun e of NotStarted er \<Rightarrow> [] | Exited c \<Rightarrow> [buildCmd (watcher s)]))
               @ (if buildCmd (watcher s) \<noteq> [] \<and> buildRun e \<noteq> Exited 0 then []
                  else (case appStart e of Inl er \<Rightarrow> [] | Inr pid \<Rightarrow> [runCmd (watcher s)])))"
  using c7_1 [OF assms] c7_2 [OF assms] c7_3 [OF assms] c7_4 [OF assms] c7_5 [OF assms]
    c7_6 [OF assms] c7_7 [OF assms]
  by blast

theorem changed_cycle_order_witness:
  "5 \<noteq> prevHash (watcher (boot exWatcher))
   \<and> snd (react (exEnv (Exited 0) (Exited 0)) (5, True, None) (boot exWatcher)) =
       [Log ChangeDetected, Log (DepChangedRunning ''go.mod'' ''go mod tidy''),
        Spawn ''go mod tidy'', Waited 0, Log RunningBuild, Spawn ''make'', Waited 0,
        Log StartingApp, Spawn ''./app'', Sleep 1]
   \<and> upto (Log RunningBuild) (snd (react (exEnv (Exited 0) (Exited 0)) (5, True, None) (boot exWatcher))) =
       [Log ChangeDetected, Log (DepChangedRunning ''go.mod'' ''go mod tidy''),
        Spawn ''go mod tidy'', Waited 0]
   \<and> Log RunningBuild \<in> set (upto (Log StartingApp)
         (snd (react (exEnv (Exited 0) (Exited 0)) (5, True, None) (boot exWatcher))))
   \<and> spawns (snd (react (exEnv (Exited 0) (Exited 0)) (5, True, None) (boot exWatcher))) =
       [''go mod tidy'', ''make'', ''./app'']
   \<and> snd (react (exEnv (Exited 0) (Exited 0)) (5, False, None) (boot exWatcher)) =
       [Log ChangeDetected, Log RunningBuild, Spawn ''make'', Waited 0,
        Log StartingApp, Spawn ''./app'', Sleep 1]
   \<and> spawns (snd (react (exEnv (Exited 0) (Exited 0)) (5, False, None) (boot exWatcher))) =
       [''make'', ''./app'']"
  using changed_cycle_order [of 5 "boot exWatcher" "exEnv (Exited 0) (Exited 0)" True
      "fst (react (exEnv (Exited 0) (Exited 0)) (5, True, None) (boot exWatcher))"
      "snd (react (exEnv (Exited 0) (Exited 0)) (5, True, None) (boot exWatcher))"]
    changed_cycle_order [of 5 "boot exWatcher" "exEnv (Exited 0) (Exited 0)" False
      "fst (react (exEnv (Exited 0) (Exited 0)) (5, False, None) (boot exWatcher))"
      "snd (react (exEnv (Exited 0) (Exited 0)) (5, False, None) (boot exWatcher))"]
  by (simp add: ex_defs eval_defs upto_def)

text \<open>
  C2, as the code has it. \<open>hashDir\<close> never returns an error. A root that \<^verbatim>\<open>Lstat\<close> cannot
  reach is handed to the callback like any entry: it is logged, and the scan returns the
  digest of no input, no dependency change and no error. An entry that \<^verbatim>\<open>Lstat\<close> cannot
  reach is logged and the walk goes on with the next name; a directory that cannot be
  read is logged and left. The loop's answer to a scan error is to log and to sleep, the
  state unchanged.
\<close>

theorem hashDir_never_surfaces_error:
  "(hashDir tstr root w = Some ((hsh, dc, err), w', lg) \<longrightarrow> err = None)
   \<and> hashDir tstr (NoStat name e) w = Some ((offset64, False, None), w, [Log (ErrorAccessing [] e)])
   \<and> walkNames (hashDir_fn tstr) p (NoStat name e # rest) sc =
       walkNames (hashDir_fn tstr) p rest (sc\<lparr>sc_log := sc_log sc @ [Log (ErrorAccessing (p @ [name]) e)]\<rparr>)
   \<and> (IsDir info \<longrightarrow>
        walk (hashDir_fn tstr) p info (Some e) kids sc =
          (RetNil, sc\<lparr>sc_log := sc_log sc @ [Log (ErrorAccessing p e)]\<rparr>))
   \<and> react en (hsh, dc, Some er) s = (s, [Log (ErrorHashingDir er), Sleep (interval (watcher s))])"
proof -
  have 1: "hashDir tstr root w = Some ((hsh, dc, err), w', lg) \<longrightarrow> err = None"
    by (auto simp: hashDir_eq Let_def split: if_splits)
  have 2: "hashDir tstr (NoStat name e) w = Some ((offset64, False, None), w, [Log (ErrorAccessing [] e)])"
    by (simp add: hashDir_eq)
  have 3: "walkNames (hashDir_fn tstr) p (NoStat name e # rest) sc =
       walkNames (hashDir_fn tstr) p rest (sc\<lparr>sc_log := sc_log sc @ [Log (ErrorAccessing (p @ [name]) e)]\<rparr>)"
    by (simp add: fn_dir_err)
  have 4: "IsDir info \<longrightarrow>
        walk (hashDir_fn tstr) p info (Some e) kids sc =
          (RetNil, sc\<lparr>sc_log := sc_log sc @ [Log (ErrorAccessing p e)]\<rparr>)"
    by (simp add: fn_dir_err)
  have 5: "react en (hsh, dc, Some er) s = (s, [Log (ErrorHashingDir er), Sleep (interval (watcher s))])"
    by (simp add: react_def)
  show ?thesis using 1 2 3 4 5 by blast
qed

theorem hashDir_never_surfaces_error_witness:
  "hashDir exTime exTree exWatcher =
     Some ((9669519470683585104, True, None), exWatcher\<lparr>prevDepMTime := 7\<rparr>,
           [Log (ErrorAccessing [''gone.go''] (PathError ''no such file or directory''))])
   \<and> IsDir \<lparr>Name = ''src'', Size = 4096, ModTime = 3, IsDir = True\<rparr>
   \<and> walk (hashDir_fn exTime) [''src''] \<lparr>Name = ''src'', Size = 4096, ModTime = 3, IsDir = True\<rparr>
        (Some (PathError ''permission denied'')) []
        \<lparr>sc_h = offset64, sc_depChanged = False, sc_w = exWatcher, sc_log = []\<rparr> =
       (RetNil, \<lparr>sc_h = offset64, sc_depChanged = False, sc_w = exWatcher,
                 sc_log = [Log (ErrorAccessing [''src''] (PathError ''permission denied''))]\<rparr>)"
  using hashDir_never_surfaces_error [of exTime exTree exWatcher 9669519470683585104 True None
      "exWatcher\<lparr>prevDepMTime := 7\<rparr>"
      "[Log (ErrorAccessing [''gone.go''] (PathError ''no such file or directory''))]"
      "''.''" "PathError ''permission denied''" "[''src'']" "[]"
      "\<lparr>sc_h = offset64, sc_depChanged = False, sc_w = exWatcher, sc_log = []\<rparr>"
      "\<lparr>Name = ''src'', Size = 4096, ModTime = 3, IsDir = True\<rparr>" "[]"]
    ex_scan
  by simp

text \<open>
  C2 as stated fails where the root is out of reach: the scan returns no error, and the
  tick takes the digest of no input for a change, stores it, builds and restarts.
\<close>

theorem hashDir_root_failure_not_surfaced:
  "hashDir exTime (NoStat ''.'' (PathError ''no such file or directory'')) exWatcher =
     Some ((offset64, False, None), exWatcher,
           [Log (ErrorAccessing [] (PathError ''no such file or directory''))])
   \<and> cycle exTime \<lparr>tree = NoStat ''.'' (PathError ''no such file or directory''),
         depRun = Exited 0, buildRun = Exited 0, appStart = Inr 100\<rparr> (boot exWatcher) =
     Some (\<lparr>watcher = exWatcher\<lparr>prevHash := offset64,
                process := Some \<lparr>ident = 0, Args = ''./app'', Process = Some 100\<rparr>\<rparr>,
            allocated = 1, waiting = [\<lparr>ident = 0, Args = ''./app'', Process = Some 100\<rparr>]\<rparr>,
           [Log (ErrorAccessing [] (PathError ''no such file or directory'')),
            Log ChangeDetected, Log RunningBuild, Spawn ''make'', Waited 0,
            Log StartingApp, Spawn ''./app'', Sleep 1])"
  by (simp add: ex_defs eval_defs)







text \<open>
  The properties of the runner, of the supervisor, of the dependency check and of the
  stored fingerprint, on the small project.
\<close>

theorem runShell_contract_witness:
  "runShell (Exited 0) [] = (None, [])
   \<and> runShell (Exited 2) ''make'' = (Some (ExitError 2), [Spawn ''make'', Waited 2])
   \<and> runShell (Exited 0) ''make'' = (None, [Spawn ''make'', Waited 0])"
  using runShell_contract [of "Exited 0" "''make''" 2] runShell_contract [of "Exited 0" "''make''" 0]
  by simp

theorem startApp_empty_runCmd_witness:
  "runCmd (watcher (boot (NewWatcher ''.'' 1 ''make'' [] [] [] [] []))) = []
   \<and> startApp (Inr 7) (boot (NewWatcher ''.'' 1 ''make'' [] [] [] [] [])) =
       (None,
        \<lparr>watcher = (NewWatcher ''.'' 1 ''make'' [] [] [] [] [])
            \<lparr>process := Some \<lparr>ident = 0, Args = [], Process = Some 7\<rparr>\<rparr>,
          allocated = 1, waiting = [\<lparr>ident = 0, Args = [], Process = Some 7\<rparr>]\<rparr>,
        [Log StartingApp, Spawn []])
   \<and> runShell (Exited 0) [] = (None, [])"
  using startApp_empty_runCmd [of "boot (NewWatcher ''.'' 1 ''make'' [] [] [] [] [])" 7 "Exited 0"]
  by (simp add: ex_defs eval_defs)

theorem supervisor_single_instance_witness:
  "process exWatcher = None
   \<and> process (watcher (run [Restart (Inr 100)] (boot exWatcher))) =
       Some \<lparr>ident = 0, Args = ''./app'', Process = Some 100\<rparr>
   \<and> \<lparr>ident = 0, Args = ''./app'', Process = Some 100\<rparr> \<notin>
       tracked (run [ProcExit 0, Restart (Inr 102)]
          (step (run [Restart (Inr 100)] (boot exWatcher)) (Restart (Inr 101))))
   \<and> Kill 100 \<in> set (snd (snd (startApp (Inr 101) (run [Restart (Inr 100)] (boot exWatcher)))))"
  using supervisor_single_instance [of exWatcher "[Restart (Inr 100)]"
      "\<lparr>ident = 0, Args = ''./app'', Process = Some 100\<rparr>" "[ProcExit 0, Restart (Inr 102)]" "Inr 101"]
  by (simp add: ex_defs eval_defs tracked_def)

theorem hashDir_depChanged_witness:
  "depFile exWatcher \<noteq> []
   \<and> hashDir exTime exTree exWatcher =
     Some ((9669519470683585104, True, None), exWatcher\<lparr>prevDepMTime := 7\<rparr>,
           [Log (ErrorAccessing [''gone.go''] (PathError ''no such file or directory''))])
   \<and> depTimes exWatcher (travRoot exTree) = [7]
   \<and> prevDepMTime (exWatcher\<lparr>prevDepMTime := 7\<rparr>) = last (depTimes exWatcher (travRoot exTree))"
  using hashDir_depChanged [of exWatcher exTime exTree 9669519470683585104 True None
      "exWatcher\<lparr>prevDepMTime := 7\<rparr>"
      "[Log (ErrorAccessing [''gone.go''] (PathError ''no such file or directory''))]"]
    ex_scan
  by (simp add: ex_defs hidden_def shouldProcess_def HasPrefix_def HasSuffix_def Rel_def Base_def)

theorem prevHash_overwritten_before_build_witness:
  "hashDir exTime (tree (exEnv (Exited 0) (Exited 2))) (watcher (boot exWatcher)) =
     Some ((9669519470683585104, True, None), exWatcher\<lparr>prevDepMTime := 7\<rparr>,
           [Log (ErrorAccessing [''gone.go''] (PathError ''no such file or directory''))])
   \<and> 9669519470683585104 \<noteq> prevHash (watcher (boot exWatcher))
   \<and> cycle exTime (exEnv (Exited 0) (Exited 2)) (boot exWatcher) =
     Some (boot (exWatcher\<lparr>prevDepMTime := 7, prevHash := 9669519470683585104\<rparr>),
       [Log (ErrorAccessing [''gone.go''] (PathError ''no such file or directory'')),
        Log ChangeDetected, Log (DepChangedRunning ''go.mod'' ''go mod tidy''),
        Spawn ''go mod tidy'', Waited 0, Log RunningBuild, Spawn ''make'',
        Waited 2, Log (BuildFailed (ExitError 2)), Sleep 1])
   \<and> tree (exEnv (Exited 0) (Exited 0)) = tree (exEnv (Exited 0) (Exited 2))
   \<and> prevHash (watcher (boot (exWatcher\<lparr>prevDepMTime := 7, prevHash := 9669519470683585104\<rparr>))) =
       9669519470683585104
   \<and> cycle exTime (exEnv (Exited 0) (Exited 0))
        (run (map ProcExit []) (boot (exWatcher\<lparr>prevDepMTime := 7, prevHash := 9669519470683585104\<rparr>))) =
     Some (boot (exWatcher\<lparr>prevDepMTime := 7, prevHash := 9669519470683585104\<rparr>),
       [Log (ErrorAccessing [''gone.go''] (PathError ''no such file or directory'')), Sleep 1])"
proof -
  have h: "hashDir exTime (tree (exEnv (Exited 0) (Exited 2))) (watcher (boot exWatcher)) =
     Some ((9669519470683585104, True, None), exWatcher\<lparr>prevDepMTime := 7\<rparr>,
           [Log (ErrorAccessing [''gone.go''] (PathError ''no such file or directory''))])"
    using ex_scan by (simp add: exEnv_def boot_def)
  have n: "9669519470683585104 \<noteq> prevHash (watcher (boot exWatcher))"
    by (simp add: ex_defs)
  have c: "cycle exTime (exEnv (Exited 0) (Exited 2)) (boot exWatcher) =
     Some (boot (exWatcher\<lparr>prevDepMTime := 7, prevHash := 9669519470683585104\<rparr>),
       [Log (ErrorAccessing [''gone.go''] (PathError ''no such file or directory'')),
        Log ChangeDetected, Log (DepChangedRunning ''go.mod'' ''go mod tidy''),
        Spawn ''go mod tidy'', Waited 0, Log RunningBuild, Spawn ''make'',
        Waited 2, Log (BuildFailed (ExitError 2)), Sleep 1])"
    by (rule ex_cycle_build_fails)
  have t: "tree (exEnv (Exited 0) (Exited 0)) = tree (exEnv (Exited 0) (Exited 2))"
    by (simp add: exEnv_def)
  from prevHash_overwritten_before_build [OF h n c t, of "[]"]
  obtain s2 where p: "prevHash (watcher (boot (exWatcher\<lparr>prevDepMTime := 7, prevHash := 9669519470683585104\<rparr>))) =
       9669519470683585104"
    and c2: "cycle exTime (exEnv (Exited 0) (Exited 0))
        (run (map ProcExit []) (boot (exWatcher\<lparr>prevDepMTime := 7, prevHash := 9669519470683585104\<rparr>))) =
       Some (s2, [Log (ErrorAccessing [''gone.go''] (PathError ''no such file or directory''))] @
                  [Sleep (interval (watcher (boot exWatcher)))])"
    by blast
  have c2': "cycle exTime (exEnv (Exited 0) (Exited 0))
        (run (map ProcExit []) (boot (exWatcher\<lparr>prevDepMTime := 7, prevHash := 9669519470683585104\<rparr>))) =
     Some (boot (exWatcher\<lparr>prevDepMTime := 7, prevHash := 9669519470683585104\<rparr>),
       [Log (ErrorAccessing [''gone.go''] (PathError ''no such file or directory'')), Sleep 1])"
    by (simp add: ex_defs eval_defs)
  show ?thesis using h n c t p c2' by blast
qed

end
